theory Spec2Isabelle
  imports
    Complex_Main
    "HOL-Library.Sublist"
    "HOL-Library.List_Lexorder"
    "HOL-Library.Char_ord"
    "HOL-Library.Multiset"
begin

section \<open>Relative time: unit selection and rounding\<close>

text \<open>
  The repository holds two variants of the library.  The extended one (\<open>date.ts\<close>, the
  second document of \<open>src/tsup.config.ts\<close>) offers \<open>date.relative\<close>; the simple one
  (\<open>src/unnamed/part_000\<close>) offers \<open>formatRelative\<close> behind \<open>date.format\<close>.  Time values
  are integral millisecond counts, so a difference of two of them is an \<open>int\<close>; the
  quotient \<open>diffMs / unit\<close> is a fraction and is kept as a \<open>rat\<close>.
\<close>

datatype RelativeTimeFormatUnit = Second | Minute | Hour | Day | Week | Month | Year

text \<open>The granularity order second < minute < hour < day < week < month < year.\<close>

fun granularity :: "RelativeTimeFormatUnit \<Rightarrow> nat" where
  "granularity Second = 0"
| "granularity Minute = 1"
| "granularity Hour = 2"
| "granularity Day = 3"
| "granularity Week = 4"
| "granularity Month = 5"
| "granularity Year = 6"

text \<open>\<open>Math.floor\<close>, \<open>Math.ceil\<close> and \<open>Math.round\<close>; the last one rounds a half upwards.\<close>

definition Math_floor :: "rat \<Rightarrow> int" where
  "Math_floor x = \<lfloor>x\<rfloor>"

definition Math_ceil :: "rat \<Rightarrow> int" where
  "Math_ceil x = \<lceil>x\<rceil>"

definition Math_round :: "rat \<Rightarrow> int" where
  "Math_round x = \<lfloor>x + 1 / 2\<rfloor>"

text \<open>
  \<open>date.relative\<close> of the extended variant, from \<open>diffMs\<close> on: the pair
  \<open>(rounded, unit)\<close> is what the function hands to \<open>rtf.format\<close>.
\<close>

definition relative_select :: "int \<Rightarrow> int \<times> RelativeTimeFormatUnit" where
  "relative_select diffMs =
     (let absMs = \<bar>diffMs\<bar>;
          sec = 1000;
          minute = 60 * sec;
          hour = 60 * minute;
          day = 24 * hour;
          week = 7 * day;
          month = 30 * day;
          year = 365 * day;
          (unit, val) =
            (if absMs \<ge> year then (Year, rat_of_int diffMs / rat_of_int year)
             else if absMs \<ge> month then (Month, rat_of_int diffMs / rat_of_int month)
             else if absMs \<ge> week then (Week, rat_of_int diffMs / rat_of_int week)
             else if absMs \<ge> day then (Day, rat_of_int diffMs / rat_of_int day)
             else if absMs \<ge> hour then (Hour, rat_of_int diffMs / rat_of_int hour)
             else if absMs \<ge> minute then (Minute, rat_of_int diffMs / rat_of_int minute)
             else (Second, rat_of_int diffMs / rat_of_int sec));
          rounded = (if val < 0 then Math_ceil val else Math_floor val)
      in (rounded, unit))"

text \<open>
  \<open>formatRelative\<close> of the simple variant, from \<open>diffMs\<close> on: again the pair handed to
  \<open>fmt.format\<close>.
\<close>

definition formatRelative_select :: "int \<Rightarrow> int \<times> RelativeTimeFormatUnit" where
  "formatRelative_select diffMs =
     (let abs = \<bar>diffMs\<bar>;
          minute = 60000;
          hour = 60 * minute;
          day = 24 * hour;
          week = 7 * day
      in if abs < hour then (Math_round (rat_of_int diffMs / rat_of_int minute), Minute)
         else if abs < day then (Math_round (rat_of_int diffMs / rat_of_int hour), Hour)
         else if abs < week then (Math_round (rat_of_int diffMs / rat_of_int day), Day)
         else (Math_round (rat_of_int diffMs / rat_of_int week), Week))"


section \<open>JavaScript values and objects\<close>

text \<open>
  The values that reach the library: \<open>undefined\<close>, \<open>null\<close>, strings, numbers, booleans,
  arrays and plain objects.  Numbers are the integral ones (of fewer than 22 digits), which a
  template literal prints in plain decimal; the numeric options of \<open>Intl\<close> are such.  An
  object is the list of its own properties in insertion order; its keys are pairwise
  distinct.
\<close>

datatype jsvalue =
    Undefined
  | Null
  | Str string
  | Num int
  | Bool bool
  | Arr "jsvalue list"
  | Obj "(string \<times> jsvalue) list"

type_synonym object = "(string \<times> jsvalue) list"

definition Object_keys :: "object \<Rightarrow> string list" where
  "Object_keys obj = map fst obj"

text \<open>\<open>obj[k]\<close>: a missing property reads as \<open>undefined\<close>.\<close>

definition objGet :: "object \<Rightarrow> string \<Rightarrow> jsvalue" where
  "objGet obj k = (case map_of obj k of Some v \<Rightarrow> v | None \<Rightarrow> Undefined)"

text \<open>\<open>obj[k] = v\<close>: an existing property keeps its place, a new one goes last.\<close>

definition objSet :: "object \<Rightarrow> string \<Rightarrow> jsvalue \<Rightarrow> object" where
  "objSet obj k v =
     (if k \<in> set (map fst obj)
      then map (\<lambda>(k', v'). if k' = k then (k', v) else (k', v')) obj
      else obj @ [(k, v)])"

text \<open>\<open>{ ...base, ...src }\<close>: the properties of \<open>src\<close> are assigned in order.\<close>

definition spread :: "object \<Rightarrow> object \<Rightarrow> object" where
  "spread base src = foldl (\<lambda>obj (k, v). objSet obj k v) base src"

text \<open>\<open>a ?? b\<close>\<close>

definition nullish :: "jsvalue \<Rightarrow> jsvalue \<Rightarrow> jsvalue" where
  "nullish a b = (if a = Undefined \<or> a = Null then b else a)"


section \<open>Decimal text of numbers\<close>

definition digitChar :: "nat \<Rightarrow> char" where
  "digitChar n = ''0123456789'' ! (n mod 10)"

fun showNat :: "nat \<Rightarrow> string" where
  "showNat n = (if n < 10 then [digitChar n] else showNat (n div 10) @ [digitChar (n mod 10)])"

declare showNat.simps [simp del]

text \<open>\<open>String(n)\<close> and a template literal of \<open>n\<close>, for an integral number.\<close>

definition numberToString :: "int \<Rightarrow> string" where
  "numberToString i = (if i < 0 then CHR ''-'' # showNat (nat (- i)) else showNat (nat i))"

definition pad2 :: "nat \<Rightarrow> string" where
  "pad2 n = (if n < 10 then ''0'' @ showNat n else showNat n)"


section \<open>The key serializer of the extended variant\<close>

text \<open>
  \<open>JSON.stringify\<close> belongs to the host; \<open>stableKey\<close> takes it as the parameter \<open>J\<close>.
  \<open>tagged\<close> is the body of the loop between the appending of \<open>k=\<close> and of \<open>;\<close>.
\<close>

fun tagged :: "(jsvalue \<Rightarrow> string) \<Rightarrow> jsvalue \<Rightarrow> string" where
  "tagged J Undefined = ''u''"
| "tagged J Null = ''n''"
| "tagged J (Str v) = ''s:'' @ v"
| "tagged J (Num v) = ''d:'' @ numberToString v"
| "tagged J (Bool v) = ''b:'' @ (if v then ''1'' else ''0'')"
| "tagged J v = ''o:'' @ J v"

fun stableKey_loop :: "(jsvalue \<Rightarrow> string) \<Rightarrow> object \<Rightarrow> string list \<Rightarrow> string \<Rightarrow> string" where
  "stableKey_loop J obj [] out = out"
| "stableKey_loop J obj (k # keys) out =
     stableKey_loop J obj keys (out @ k @ ''='' @ tagged J (objGet obj k) @ '';'')"

definition stableKey :: "(jsvalue \<Rightarrow> string) \<Rightarrow> object \<Rightarrow> string" where
  "stableKey J obj = stableKey_loop J obj (sort (Object_keys obj)) []"

text \<open>
  Field maps on which the concatenation can be read back: no name holds \<open>=\<close> or \<open>;\<close>,
  every value is a scalar, and no string value holds \<open>;\<close>.
\<close>

fun scalar :: "jsvalue \<Rightarrow> bool" where
  "scalar (Arr _) = False"
| "scalar (Obj _) = False"
| "scalar _ = True"

definition delimiterFree :: "object \<Rightarrow> bool" where
  "delimiterFree obj =
     list_all (\<lambda>(k, v). CHR '';'' \<notin> set k \<and> CHR ''='' \<notin> set k \<and> scalar v
                 \<and> (case v of Str s \<Rightarrow> CHR '';'' \<notin> set s | _ \<Rightarrow> True)) obj"


section \<open>Host objects, the two caches and the state\<close>

text \<open>
  An \<open>Intl.DateTimeFormat\<close> or \<open>Intl.RelativeTimeFormat\<close> instance is known by the number
  of constructor calls made before its own and by the arguments of its constructor.
\<close>

record DateTimeFormat =
  dtf_id :: nat
  dtf_locale :: jsvalue
  dtf_options :: object

record RelativeTimeFormat =
  rtf_id :: nat
  rtf_locale :: jsvalue
  rtf_options :: object

text \<open>What a call does to the host: reads and writes of the two Maps, constructor calls.\<close>

datatype event =
    DtfCacheGet string
  | DtfCacheSet string
  | RtfCacheGet string
  | RtfCacheSet string
  | NewDateTimeFormat jsvalue object
  | NewRelativeTimeFormat jsvalue object

fun isConstruction :: "event \<Rightarrow> bool" where
  "isConstruction (NewDateTimeFormat _ _) = True"
| "isConstruction (NewRelativeTimeFormat _ _) = True"
| "isConstruction _ = False"

datatype error = InvalidDate | RangeError

text \<open>
  The state: the Date objects allocated so far (a Date is its index, the cell holds its
  time value, \<open>None\<close> for \<open>NaN\<close>), the module's two Maps, and the events so far.
\<close>

record state =
  dateHeap :: "int option list"
  dtfCache :: "string \<rightharpoonup> DateTimeFormat"
  rtfCache :: "string \<rightharpoonup> RelativeTimeFormat"
  events :: "event list"

definition constructions :: "state \<Rightarrow> nat" where
  "constructions st = length (filter isConstruction (events st))"

text \<open>
  What the host supplies and the library does not define: \<open>JSON.stringify\<close>, whether an
  \<open>Intl\<close> constructor accepts its arguments (it throws a \<open>RangeError\<close> otherwise), the text
  a formatter produces, the clock, the parsing of date strings and the local calendar
  fields of a time value.
\<close>

record DateFields =
  getFullYear :: int
  getMonth :: nat
  getDate :: nat
  getHours :: nat
  getMinutes :: nat
  getSeconds :: nat

record host =
  JSON_stringify :: "jsvalue \<Rightarrow> string"
  dtfAccepts :: "jsvalue \<Rightarrow> object \<Rightarrow> bool"
  rtfAccepts :: "jsvalue \<Rightarrow> object \<Rightarrow> bool"
  dtfFormat :: "DateTimeFormat \<Rightarrow> int \<Rightarrow> string"
  rtfFormat :: "RelativeTimeFormat \<Rightarrow> int \<Rightarrow> RelativeTimeFormatUnit \<Rightarrow> string"
  Date_now :: int
  Date_parse :: "string \<Rightarrow> int option"
  localFields :: "int option \<Rightarrow> DateFields"

type_synonym 'a result = "(error + 'a) \<times> state"

definition dtfCache_get :: "state \<Rightarrow> string \<Rightarrow> DateTimeFormat option \<times> state" where
  "dtfCache_get st key = (dtfCache st key, st\<lparr>events := events st @ [DtfCacheGet key]\<rparr>)"

definition dtfCache_set :: "state \<Rightarrow> string \<Rightarrow> DateTimeFormat \<Rightarrow> state" where
  "dtfCache_set st key f =
     st\<lparr>dtfCache := (dtfCache st)(key \<mapsto> f), events := events st @ [DtfCacheSet key]\<rparr>"

definition rtfCache_get :: "state \<Rightarrow> string \<Rightarrow> RelativeTimeFormat option \<times> state" where
  "rtfCache_get st key = (rtfCache st key, st\<lparr>events := events st @ [RtfCacheGet key]\<rparr>)"

definition rtfCache_set :: "state \<Rightarrow> string \<Rightarrow> RelativeTimeFormat \<Rightarrow> state" where
  "rtfCache_set st key f =
     st\<lparr>rtfCache := (rtfCache st)(key \<mapsto> f), events := events st @ [RtfCacheSet key]\<rparr>"

definition new_DateTimeFormat ::
    "host \<Rightarrow> state \<Rightarrow> jsvalue \<Rightarrow> object \<Rightarrow> DateTimeFormat result" where
  "new_DateTimeFormat h st locale opts =
     (let st' = st\<lparr>events := events st @ [NewDateTimeFormat locale opts]\<rparr>
      in if dtfAccepts h locale opts
         then (Inr \<lparr>dtf_id = constructions st, dtf_locale = locale, dtf_options = opts\<rparr>, st')
         else (Inl RangeError, st'))"

definition new_RelativeTimeFormat ::
    "host \<Rightarrow> state \<Rightarrow> jsvalue \<Rightarrow> object \<Rightarrow> RelativeTimeFormat result" where
  "new_RelativeTimeFormat h st locale opts =
     (let st' = st\<lparr>events := events st @ [NewRelativeTimeFormat locale opts]\<rparr>
      in if rtfAccepts h locale opts
         then (Inr \<lparr>rtf_id = constructions st, rtf_locale = locale, rtf_options = opts\<rparr>, st')
         else (Inl RangeError, st'))"



section \<open>The cached formatters of the extended variant\<close>



definition getRtf ::
    "host \<Rightarrow> state \<Rightarrow> string \<Rightarrow> jsvalue \<Rightarrow> RelativeTimeFormat result" where
  "getRtf h st locale numeric =
     (let key = stableKey (JSON_stringify h) [(''locale'', Str locale), (''numeric'', numeric)];
          (rtf, st1) = rtfCache_get st key
      in case rtf of
           Some f \<Rightarrow> (Inr f, st1)
         | None \<Rightarrow>
             (case new_RelativeTimeFormat h st1 (Str locale) [(''numeric'', numeric)] of
                (Inl e, st2) \<Rightarrow> (Inl e, st2)
              | (Inr f, st2) \<Rightarrow> (Inr f, rtfCache_set st2 key f)))"


section \<open>The cached formatters of the simple variant\<close>

definition dtf_key :: "host \<Rightarrow> jsvalue \<Rightarrow> jsvalue \<Rightarrow> object \<Rightarrow> string" where
  "dtf_key h locale timeZone opts =
     JSON_stringify h (Arr [nullish locale Null, nullish timeZone Null, Obj opts])"

definition dtf ::
    "host \<Rightarrow> state \<Rightarrow> jsvalue \<Rightarrow> jsvalue \<Rightarrow> object \<Rightarrow> DateTimeFormat result" where
  "dtf h st locale timeZone opts =
     (let key = dtf_key h locale timeZone opts;
          (hit, st1) = dtfCache_get st key
      in case hit of
           Some f \<Rightarrow> (Inr f, st1)
         | None \<Rightarrow>
             (case new_DateTimeFormat h st1 locale (objSet (spread [] opts) ''timeZone'' timeZone) of
                (Inl e, st2) \<Rightarrow> (Inl e, st2)
              | (Inr fmt, st2) \<Rightarrow> (Inr fmt, dtfCache_set st2 key fmt)))"

definition rtf ::
    "host \<Rightarrow> state \<Rightarrow> jsvalue \<Rightarrow> jsvalue \<Rightarrow> RelativeTimeFormat result" where
  "rtf h st locale numeric =
     (let key = JSON_stringify h (Arr [nullish locale Null, numeric]);
          (hit, st1) = rtfCache_get st key
      in case hit of
           Some f \<Rightarrow> (Inr f, st1)
         | None \<Rightarrow>
             (case new_RelativeTimeFormat h st1 locale [(''numeric'', numeric)] of
                (Inl e, st2) \<Rightarrow> (Inl e, st2)
              | (Inr fmt, st2) \<Rightarrow> (Inr fmt, rtfCache_set st2 key fmt)))"




section \<open>Token formatting\<close>

text \<open>
  \<open>pattern.replace(re, fn)\<close> for a global regular expression \<open>re\<close> that is an alternation
  of non-empty literals, given as the list of its alternatives.  At each position the
  first alternative that matches there is taken (\<open>firstAlt\<close>), \<open>fn\<close> of the match is
  emitted and the scan goes on behind the match; a character at which nothing matches is
  copied.  After the first character, \<open>length tok - 1\<close> more are dropped.
\<close>

fun firstAlt :: "string list \<Rightarrow> string \<Rightarrow> string option" where
  "firstAlt [] s = None"
| "firstAlt (t # ts) s = (if prefix t s then Some t else firstAlt ts s)"

fun String_replace :: "string list \<Rightarrow> (string \<Rightarrow> string) \<Rightarrow> string \<Rightarrow> string" where
  "String_replace re fn [] = []"
| "String_replace re fn (c # s) =
     (case firstAlt re (c # s) of
        Some tok \<Rightarrow> fn tok @ String_replace re fn (drop (length tok - 1) s)
      | None \<Rightarrow> c # String_replace re fn s)"

text \<open>\<open>re.test(s)\<close> for such an expression without the global flag.\<close>

fun RegExp_test :: "string list \<Rightarrow> string \<Rightarrow> bool" where
  "RegExp_test re [] = False"
| "RegExp_test re (c # s) = (firstAlt re (c # s) \<noteq> None \<or> RegExp_test re s)"

text \<open>\<open>str.slice(-2)\<close>\<close>

definition slice_last2 :: "string \<Rightarrow> string" where
  "slice_last2 s = drop (length s - 2) s"

text \<open>
  \<open>formatTokens\<close> of the extended variant.  The Date \<open>d\<close> is given by its local calendar
  fields, which is all the function reads of it.
\<close>

definition tokenMap :: "DateFields \<Rightarrow> (string \<times> string) list" where
  "tokenMap d =
     (let Y = getFullYear d;
          M = getMonth d + 1;
          D = getDate d;
          H = getHours d;
          m = getMinutes d;
          s = getSeconds d
      in [(''YYYY'', numberToString Y),
          (''YY'', slice_last2 (numberToString Y)),
          (''MM'', pad2 M),
          (''M'', showNat M),
          (''DD'', pad2 D),
          (''D'', showNat D),
          (''HH'', pad2 H),
          (''H'', showNat H),
          (''mm'', pad2 m),
          (''m'', showNat m),
          (''ss'', pad2 s),
          (''s'', showNat s)])"

definition formatTokens_re :: "string list" where
  "formatTokens_re =
     [''YYYY'', ''YY'', ''MM'', ''DD'', ''HH'', ''mm'', ''ss'', ''M'', ''D'', ''H'', ''m'', ''s'']"

definition formatTokens :: "DateFields \<Rightarrow> string \<Rightarrow> string" where
  "formatTokens d pattern =
     String_replace formatTokens_re
       (\<lambda>tok. case map_of (tokenMap d) tok of Some text \<Rightarrow> text | None \<Rightarrow> tok) pattern"

text \<open>
  \<open>formatTokensLocal\<close> of the simple variant: six replacements, one after the other.  Each
  replacement text is made of digits and at most a minus sign, so it holds none of the
  dollar patterns that a replacement string may carry.
\<close>

definition formatTokensLocal :: "DateFields \<Rightarrow> string \<Rightarrow> string" where
  "formatTokensLocal d pattern =
     (let y = getFullYear d;
          m = getMonth d + 1;
          day = getDate d;
          hh = getHours d;
          mm = getMinutes d;
          ss = getSeconds d
      in String_replace [''ss''] (\<lambda>_. pad2 ss)
          (String_replace [''mm''] (\<lambda>_. pad2 mm)
            (String_replace [''HH''] (\<lambda>_. pad2 hh)
              (String_replace [''DD''] (\<lambda>_. pad2 day)
                (String_replace [''MM''] (\<lambda>_. pad2 m)
                  (String_replace [''YYYY''] (\<lambda>_. numberToString y) pattern))))))"

definition TOKEN_RE :: "string list" where
  "TOKEN_RE = [''YYYY'', ''MM'', ''DD'', ''HH'', ''mm'', ''ss'']"

text \<open>
  The matching discipline in the words of the specification: one pass from left to
  right which, at each position, takes the longest recognized token that matches there,
  and copies a character at which none matches.  The pattern is cut into pieces once,
  each piece is rendered on its own, and no rendered text is looked at again.
\<close>

definition longestToken :: "string list \<Rightarrow> string \<Rightarrow> string option" where
  "longestToken toks s =
     (case filter (\<lambda>t. prefix t s) toks of
        [] \<Rightarrow> None
      | m # ms \<Rightarrow> Some (fold (\<lambda>t best. if length best < length t then t else best) ms m))"

datatype piece = Token string | Literal char

fun pieces :: "string list \<Rightarrow> string \<Rightarrow> piece list" where
  "pieces toks [] = []"
| "pieces toks (c # s) =
     (case longestToken toks (c # s) of
        Some tok \<Rightarrow> Token tok # pieces toks (drop (length tok - 1) s)
      | None \<Rightarrow> Literal c # pieces toks s)"

fun render :: "(string \<Rightarrow> string) \<Rightarrow> piece \<Rightarrow> string" where
  "render val (Token tok) = val tok"
| "render val (Literal c) = [c]"

definition expand :: "string list \<Rightarrow> (string \<Rightarrow> string) \<Rightarrow> string \<Rightarrow> string" where
  "expand toks val pattern = concat (map (render val) (pieces toks pattern))"

text \<open>The recognized tokens of the two variants and the text each one stands for.\<close>

definition tokensExtended :: "string list" where
  "tokensExtended =
     [''YYYY'', ''YY'', ''MM'', ''M'', ''DD'', ''D'', ''HH'', ''H'', ''mm'', ''m'', ''ss'', ''s'']"

definition tokensSimple :: "string list" where
  "tokensSimple = [''YYYY'', ''MM'', ''DD'', ''HH'', ''mm'', ''ss'']"

definition tokenValue :: "DateFields \<Rightarrow> string \<Rightarrow> string" where
  "tokenValue d tok =
     (if tok = ''YYYY'' then numberToString (getFullYear d)
      else if tok = ''YY'' then slice_last2 (numberToString (getFullYear d))
      else if tok = ''MM'' then pad2 (getMonth d + 1)
      else if tok = ''M'' then showNat (getMonth d + 1)
      else if tok = ''DD'' then pad2 (getDate d)
      else if tok = ''D'' then showNat (getDate d)
      else if tok = ''HH'' then pad2 (getHours d)
      else if tok = ''H'' then showNat (getHours d)
      else if tok = ''mm'' then pad2 (getMinutes d)
      else if tok = ''m'' then showNat (getMinutes d)
      else if tok = ''ss'' then pad2 (getSeconds d)
      else if tok = ''s'' then showNat (getSeconds d)
      else tok)"


text \<open>
  Three notions for the proofs about the two formatters: a list of alternatives in which
  no alternative is a proper prefix of a later one; a non-empty text of digits and minus
  signs; and the six replacements of \<open>formatTokensLocal\<close> with the six texts as parameters.
\<close>

fun longestFirst :: "string list \<Rightarrow> bool" where
  "longestFirst [] = True"
| "longestFirst (t # ts) = (list_all (\<lambda>u. \<not> strict_prefix t u) ts \<and> longestFirst ts)"

definition digitText :: "string \<Rightarrow> bool" where
  "digitText r = (r \<noteq> [] \<and> list_all (\<lambda>c. c \<in> set ''-0123456789'') r)"

definition sixPasses ::
    "string \<Rightarrow> string \<Rightarrow> string \<Rightarrow> string \<Rightarrow> string \<Rightarrow> string \<Rightarrow> string \<Rightarrow> string" where
  "sixPasses rY rM rD rH rm rs pattern =
     String_replace [''ss''] (\<lambda>_. rs)
       (String_replace [''mm''] (\<lambda>_. rm)
         (String_replace [''HH''] (\<lambda>_. rH)
           (String_replace [''DD''] (\<lambda>_. rD)
             (String_replace [''MM''] (\<lambda>_. rM)
               (String_replace [''YYYY''] (\<lambda>_. rY) pattern)))))"


section \<open>Date objects and the UTC calendar of the host\<close>

text \<open>
  The abstract operations of ECMAScript on time values that \<open>getUTCDate\<close> and
  \<open>setUTCDate\<close> are made of.  \<open>YearFromTime\<close> is the largest year whose first day is not
  after the day of \<open>t\<close>; it is found by walking down from an upper estimate.
\<close>

definition msPerDay :: int where
  "msPerDay = 86400000"

definition DayNumber :: "int \<Rightarrow> int" where
  "DayNumber t = t div msPerDay"

definition TimeWithinDay :: "int \<Rightarrow> int" where
  "TimeWithinDay t = t mod msPerDay"

definition DaysInYear :: "int \<Rightarrow> int" where
  "DaysInYear y =
     (if y mod 4 \<noteq> 0 then 365 else if y mod 100 \<noteq> 0 then 366
      else if y mod 400 \<noteq> 0 then 365 else 366)"

definition DayFromYear :: "int \<Rightarrow> int" where
  "DayFromYear y =
     365 * (y - 1970) + (y - 1969) div 4 - (y - 1901) div 100 + (y - 1601) div 400"

fun yearDown :: "nat \<Rightarrow> int \<Rightarrow> int \<Rightarrow> int" where
  "yearDown 0 y day = y"
| "yearDown (Suc fuel) y day =
     (if DayFromYear y \<le> day then y else yearDown fuel (y - 1) day)"

definition YearFromTime :: "int \<Rightarrow> int" where
  "YearFromTime t =
     (let day = DayNumber t;
          upper = 1970 + (if 0 \<le> day then day div 365 else day div 366)
      in yearDown (nat (\<bar>day\<bar> div 1000) + 2) upper day)"

definition InLeapYear :: "int \<Rightarrow> int" where
  "InLeapYear t = (if DaysInYear (YearFromTime t) = 366 then 1 else 0)"

definition DayWithinYear :: "int \<Rightarrow> int" where
  "DayWithinYear t = DayNumber t - DayFromYear (YearFromTime t)"

definition MonthFromTime :: "int \<Rightarrow> int" where
  "MonthFromTime t =
     (let d = DayWithinYear t; leap = InLeapYear t
      in if d < 31 then 0
         else if d < 59 + leap then 1
         else if d < 90 + leap then 2
         else if d < 120 + leap then 3
         else if d < 151 + leap then 4
         else if d < 181 + leap then 5
         else if d < 212 + leap then 6
         else if d < 243 + leap then 7
         else if d < 273 + leap then 8
         else if d < 304 + leap then 9
         else if d < 334 + leap then 10
         else 11)"

definition DateFromTime :: "int \<Rightarrow> int" where
  "DateFromTime t =
     (let d = DayWithinYear t; leap = InLeapYear t; m = MonthFromTime t
      in if m = 0 then d + 1
         else if m = 1 then d - 30
         else if m = 2 then d - 58 - leap
         else if m = 3 then d - 89 - leap
         else if m = 4 then d - 119 - leap
         else if m = 5 then d - 150 - leap
         else if m = 6 then d - 180 - leap
         else if m = 7 then d - 211 - leap
         else if m = 8 then d - 242 - leap
         else if m = 9 then d - 272 - leap
         else if m = 10 then d - 303 - leap
         else d - 333 - leap)"

text \<open>The day number of the first day of month \<open>mn\<close> (0 to 11) within its year.\<close>

definition firstDayOfMonth :: "int \<Rightarrow> int \<Rightarrow> int" where
  "firstDayOfMonth mn leap =
     (if mn = 0 then 0
      else if mn = 1 then 31
      else if mn = 2 then 59 + leap
      else if mn = 3 then 90 + leap
      else if mn = 4 then 120 + leap
      else if mn = 5 then 151 + leap
      else if mn = 6 then 181 + leap
      else if mn = 7 then 212 + leap
      else if mn = 8 then 243 + leap
      else if mn = 9 then 273 + leap
      else if mn = 10 then 304 + leap
      else 334 + leap)"

definition MakeDay :: "int \<Rightarrow> int \<Rightarrow> int \<Rightarrow> int" where
  "MakeDay year month date =
     (let ym = year + month div 12;
          mn = month mod 12;
          leap = (if DaysInYear ym = 366 then 1 else 0)
      in DayFromYear ym + firstDayOfMonth mn leap + date - 1)"

definition MakeDate :: "int \<Rightarrow> int \<Rightarrow> int" where
  "MakeDate day time = day * msPerDay + time"

definition TimeClip :: "int \<Rightarrow> int option" where
  "TimeClip time = (if \<bar>time\<bar> > 8640000000000000 then None else Some time)"

text \<open>\<open>getUTCDate\<close> and \<open>setUTCDate\<close> on a time value; \<open>None\<close> is \<open>NaN\<close>.\<close>

definition Date_getUTCDate :: "int option \<Rightarrow> int option" where
  "Date_getUTCDate tv = map_option DateFromTime tv"

definition Date_setUTCDate :: "int option \<Rightarrow> int option \<Rightarrow> int option" where
  "Date_setUTCDate tv date =
     (case tv of
        None \<Rightarrow> None
      | Some t \<Rightarrow>
          (case date of
             None \<Rightarrow> None
           | Some dt \<Rightarrow>
               TimeClip (MakeDate (MakeDay (YearFromTime t) (MonthFromTime t) dt)
                           (TimeWithinDay t))))"

text \<open>Date objects live in \<open>dateHeap\<close>: allocation, \<open>getTime\<close>, and the write of a setter.\<close>

definition new_Date :: "state \<Rightarrow> int option \<Rightarrow> nat \<times> state" where
  "new_Date st tv = (length (dateHeap st), st\<lparr>dateHeap := dateHeap st @ [tv]\<rparr>)"

definition Date_getTime :: "state \<Rightarrow> nat \<Rightarrow> int option" where
  "Date_getTime st d = (if d < length (dateHeap st) then dateHeap st ! d else None)"

definition Date_setTime :: "state \<Rightarrow> nat \<Rightarrow> int option \<Rightarrow> state" where
  "Date_setTime st d tv = st\<lparr>dateHeap := (dateHeap st)[d := tv]\<rparr>"


section \<open>The simple variant: \<open>format\<close> and \<open>addDays\<close>\<close>

text \<open>
  \<open>toDate\<close> hands a Date argument back as it is and allocates a Date for a number or a
  string: \<open>new Date(n)\<close> clips the number, \<open>new Date(s)\<close> asks the host to parse the string.
  \<open>assertValid\<close> answers with the error it throws, if any.
\<close>

datatype DateInput = InDate nat | InNumber int | InString string

definition toDate :: "host \<Rightarrow> state \<Rightarrow> DateInput \<Rightarrow> nat \<times> state" where
  "toDate h st input =
     (case input of
        InDate d \<Rightarrow> (d, st)
      | InNumber n \<Rightarrow> new_Date st (TimeClip n)
      | InString s \<Rightarrow> new_Date st (Date_parse h s))"

definition assertValid :: "state \<Rightarrow> nat \<Rightarrow> error option" where
  "assertValid st d = (if Date_getTime st d = None then Some InvalidDate else None)"

text \<open>\<open>fmt.format(d)\<close> of a DateTimeFormat: a \<open>RangeError\<close> on an invalid Date.\<close>

definition DateTimeFormat_format ::
    "host \<Rightarrow> state \<Rightarrow> DateTimeFormat \<Rightarrow> nat \<Rightarrow> string result" where
  "DateTimeFormat_format h st fmt d =
     (case Date_getTime st d of
        None \<Rightarrow> (Inl RangeError, st)
      | Some t \<Rightarrow> (Inr (dtfFormat h fmt t), st))"

definition formatPreset :: "host \<Rightarrow> state \<Rightarrow> nat \<Rightarrow> string \<Rightarrow> object \<Rightarrow> string result" where
  "formatPreset h st d preset opts =
     (let options =
            (if preset = ''date''
             then spread [(''year'', Str ''numeric''), (''month'', Str ''short''),
                          (''day'', Str ''2-digit'')] opts
             else if preset = ''time''
             then spread [(''hour'', Str ''2-digit''), (''minute'', Str ''2-digit'')] opts
             else spread [(''year'', Str ''numeric''), (''month'', Str ''short''),
                          (''day'', Str ''2-digit''), (''hour'', Str ''2-digit''),
                          (''minute'', Str ''2-digit'')] opts)
      in case dtf h st (objGet opts ''locale'') (objGet opts ''timeZone'') options of
           (Inl e, st1) \<Rightarrow> (Inl e, st1)
         | (Inr fmt, st1) \<Rightarrow> DateTimeFormat_format h st1 fmt d)"

definition formatRelative :: "host \<Rightarrow> state \<Rightarrow> nat \<Rightarrow> object \<Rightarrow> string result" where
  "formatRelative h st d opts =
     (let now = Date_now h
      in case rtf h st (objGet opts ''locale'') (nullish (objGet opts ''numeric'') (Str ''auto'')) of
           (Inl e, st1) \<Rightarrow> (Inl e, st1)
         | (Inr fmt, st1) \<Rightarrow>
             (case Date_getTime st1 d of
                None \<Rightarrow> (Inl RangeError, st1)
              | Some t \<Rightarrow>
                  (let (rounded, unit) = formatRelative_select (t - now)
                   in (Inr (rtfFormat h fmt rounded unit), st1))))"

definition format :: "host \<Rightarrow> state \<Rightarrow> DateInput \<Rightarrow> string \<Rightarrow> object \<Rightarrow> string result" where
  "format h st input presetOrPattern opts =
     (let (d, st1) = toDate h st input
      in case assertValid st1 d of
           Some e \<Rightarrow> (Inl e, st1)
         | None \<Rightarrow>
             if presetOrPattern = ''relative'' then formatRelative h st1 d opts
             else if presetOrPattern = ''date'' \<or> presetOrPattern = ''time''
                     \<or> presetOrPattern = ''datetime''
             then formatPreset h st1 d presetOrPattern opts
             else if RegExp_test TOKEN_RE presetOrPattern
             then (Inr (formatTokensLocal (localFields h (Date_getTime st1 d))
                          presetOrPattern), st1)
             else formatPreset h st1 d ''date'' opts)"

definition addDays :: "host \<Rightarrow> state \<Rightarrow> DateInput \<Rightarrow> int \<Rightarrow> nat result" where
  "addDays h st input days =
     (let (d, st1) = toDate h st input
      in case assertValid st1 d of
           Some e \<Rightarrow> (Inl e, st1)
         | None \<Rightarrow>
             (let (out, st2) = new_Date st1 (Date_getTime st1 d);
                  date = map_option (\<lambda>x. x + days) (Date_getUTCDate (Date_getTime st2 out));
                  st3 = Date_setTime st2 out (Date_setUTCDate (Date_getTime st2 out) date)
              in (Inr out, st3)))"


text \<open>
  The time value an input has after coercion, and what makes a time value valid: it is
  not \<open>NaN\<close> and lies within the range of Date objects.
\<close>

definition timeValueOf :: "host \<Rightarrow> state \<Rightarrow> DateInput \<Rightarrow> int option" where
  "timeValueOf h st input = (let (d, st1) = toDate h st input in Date_getTime st1 d)"

definition validTimeValue :: "int option \<Rightarrow> bool" where
  "validTimeValue tv = (case tv of None \<Rightarrow> False | Some t \<Rightarrow> \<bar>t\<bar> \<le> 8640000000000000)"


section \<open>A sample host\<close>

text \<open>
  Every theorem below holds for any host.  The examples need one: its formatters accept
  every argument and print the number they are given, its clock stands at the epoch, it
  parses no string, and \<open>sampleStringify\<close> stands in for \<open>JSON.stringify\<close> (JSON text
  without escapes).
\<close>

fun commaJoin :: "string list \<Rightarrow> string" where
  "commaJoin [] = []"
| "commaJoin [x] = x"
| "commaJoin (x # y # ys) = x @ '','' @ commaJoin (y # ys)"

fun sampleStringify :: "jsvalue \<Rightarrow> string" where
  "sampleStringify Undefined = ''null''"
| "sampleStringify Null = ''null''"
| "sampleStringify (Str s) = CHR 0x22 # s @ [CHR 0x22]"
| "sampleStringify (Num n) = numberToString n"
| "sampleStringify (Bool b) = (if b then ''true'' else ''false'')"
| "sampleStringify (Arr xs) = ''['' @ commaJoin (map sampleStringify xs) @ '']''"
| "sampleStringify (Obj kvs) =
     ''{'' @ commaJoin (map (\<lambda>p. CHR 0x22 # fst p @ [CHR 0x22] @ '':'' @ sampleStringify (snd p))
                          (filter (\<lambda>p. snd p \<noteq> Undefined) kvs)) @ ''}''"

definition sampleHost :: host where
  "sampleHost =
     \<lparr>JSON_stringify = sampleStringify,
      dtfAccepts = (\<lambda>locale opts. True),
      rtfAccepts = (\<lambda>locale opts. True),
      dtfFormat = (\<lambda>fmt t. numberToString t),
      rtfFormat = (\<lambda>fmt n unit. numberToString n),
      Date_now = 0,
      Date_parse = (\<lambda>s. None),
      localFields = (\<lambda>tv. \<lparr>getFullYear = 2025, getMonth = 11, getDate = 27,
                             getHours = 21, getMinutes = 5, getSeconds = 0\<rparr>)\<rparr>"

definition emptyState :: state where
  "emptyState = \<lparr>dateHeap = [], dtfCache = Map.empty, rtfCache = Map.empty, events = []\<rparr>"


section \<open>Properties of the unit selection\<close>

lemma relative_select_unit:
  "snd (relative_select d) =
     (if \<bar>d\<bar> \<ge> 31536000000 then Year
      else if \<bar>d\<bar> \<ge> 2592000000 then Month
      else if \<bar>d\<bar> \<ge> 604800000 then Week
      else if \<bar>d\<bar> \<ge> 86400000 then Day
      else if \<bar>d\<bar> \<ge> 3600000 then Hour
      else if \<bar>d\<bar> \<ge> 60000 then Minute
      else Second)"
  by (simp add: relative_select_def Let_def)

lemma formatRelative_select_unit:
  "snd (formatRelative_select d) =
     (if \<bar>d\<bar> < 3600000 then Minute
      else if \<bar>d\<bar> < 86400000 then Hour
      else if \<bar>d\<bar> < 604800000 then Day
      else Week)"
  by (simp add: formatRelative_select_def Let_def)

text \<open>
  C4.  The unit selected for a relative time is monotonic in the absolute elapsed
  difference: whenever \<open>|d1| \<le> |d2|\<close>, the unit chosen for \<open>d2\<close> is at least as coarse as
  the unit chosen for \<open>d1\<close> in the order second < minute < hour < day < week < month <
  year.  This holds for \<open>relative\<close> of the extended variant and for \<open>formatRelative\<close> of
  the simple one.
\<close>

theorem relative_unit_monotonic:
  assumes "\<bar>d1\<bar> \<le> \<bar>d2\<bar>"
  shows "granularity (snd (relative_select d1)) \<le> granularity (snd (relative_select d2))
       \<and> granularity (snd (formatRelative_select d1))
           \<le> granularity (snd (formatRelative_select d2))"
proof
  show "granularity (snd (relative_select d1)) \<le> granularity (snd (relative_select d2))"
    using assms unfolding relative_select_unit by (simp split: if_splits)
next
  show "granularity (snd (formatRelative_select d1))
          \<le> granularity (snd (formatRelative_select d2))"
    using assms unfolding formatRelative_select_unit by (simp split: if_splits)
qed

theorem relative_unit_monotonic_witness:
  "\<bar>59000::int\<bar> \<le> \<bar>- 61000\<bar>
   \<and> snd (relative_select 59000) = Second \<and> snd (relative_select (- 61000)) = Minute
   \<and> granularity (snd (relative_select 59000)) \<le> granularity (snd (relative_select (- 61000)))
   \<and> granularity (snd (formatRelative_select 59000))
       \<le> granularity (snd (formatRelative_select (- 61000)))"
  using relative_unit_monotonic [of 59000 "- 61000"]
  by (simp add: relative_select_unit)


section \<open>Decimal text: digits only, and one text per number\<close>

lemma digitChar_digit: "digitChar n \<in> set ''0123456789''"
  unfolding digitChar_def by (rule nth_mem) simp

lemma digitChar_inj: "a < 10 \<Longrightarrow> b < 10 \<Longrightarrow> digitChar a = digitChar b \<Longrightarrow> a = b"
proof -
  assume a: "a < 10" and b: "b < 10" and e: "digitChar a = digitChar b"
  have d: "distinct ''0123456789''" by simp
  have "''0123456789'' ! a = ''0123456789'' ! b" using e a b by (simp add: digitChar_def)
  then show "a = b" using d a b by (simp add: nth_eq_iff_index_eq)
qed

lemma showNat_digits: "set (showNat n) \<subseteq> set ''0123456789''"
proof (induction n rule: showNat.induct)
  case (1 n)
  show ?case
  proof (cases "n < 10")
    case True
    then show ?thesis using digitChar_digit [of n] by (subst showNat.simps) simp
  next
    case False
    then show ?thesis using 1 digitChar_digit [of "n mod 10"] by (subst showNat.simps) simp
  qed
qed

lemma showNat_nonempty: "showNat n \<noteq> []"
  by (subst showNat.simps) simp

lemma showNat_inj: "showNat a = showNat b \<Longrightarrow> a = b"
proof (induction a arbitrary: b rule: showNat.induct)
  case (1 a)
  show ?case
  proof (cases "a < 10")
    case a: True
    show ?thesis
    proof (cases "b < 10")
      case True
      with a 1(2) show ?thesis by (simp add: showNat.simps [of a] showNat.simps [of b] digitChar_inj)
    next
      case False
      with a 1(2) showNat_nonempty [of "b div 10"] show ?thesis
        by (simp add: showNat.simps [of a] showNat.simps [of b])
    qed
  next
    case a: False
    show ?thesis
    proof (cases "b < 10")
      case True
      with a 1(2) showNat_nonempty [of "a div 10"] show ?thesis
        by (simp add: showNat.simps [of a] showNat.simps [of b])
    next
      case False
      with a 1(2) have e: "showNat (a div 10) = showNat (b div 10)"
        and d: "digitChar (a mod 10) = digitChar (b mod 10)"
        by (simp_all add: showNat.simps [of a] showNat.simps [of b])
      from 1(1) [OF a e] have "a div 10 = b div 10" .
      moreover from d have "a mod 10 = b mod 10" by (intro digitChar_inj) simp_all
      ultimately show ?thesis by (metis div_mult_mod_eq)
    qed
  qed
qed

lemma showNat_no_minus: "CHR ''-'' \<notin> set (showNat n)"
  using showNat_digits [of n] by auto

lemma numberToString_inj: "numberToString a = numberToString b \<Longrightarrow> a = b"
proof -
  assume e: "numberToString a = numberToString b"
  have hd: "\<And>n. hd (showNat n) \<noteq> CHR ''-''"
    using showNat_no_minus showNat_nonempty by (metis list.set_sel(1))
  show "a = b"
  proof (cases "a < 0")
    case a: True
    show ?thesis
    proof (cases "b < 0")
      case True
      with a e have "showNat (nat (- a)) = showNat (nat (- b))" by (simp add: numberToString_def)
      then have "nat (- a) = nat (- b)" by (rule showNat_inj)
      with a True show ?thesis by simp
    next
      case False
      with a e have "CHR ''-'' # showNat (nat (- a)) = showNat (nat b)" by (simp add: numberToString_def)
      then show ?thesis using hd [of "nat b"] by (metis list.sel(1))
    qed
  next
    case a: False
    show ?thesis
    proof (cases "b < 0")
      case True
      with a e have "showNat (nat a) = CHR ''-'' # showNat (nat (- b))" by (simp add: numberToString_def)
      then show ?thesis using hd [of "nat a"] by (metis list.sel(1))
    next
      case False
      with a e have "showNat (nat a) = showNat (nat b)" by (simp add: numberToString_def)
      then have "nat a = nat b" by (rule showNat_inj)
      with a False show ?thesis by simp
    qed
  qed
qed

lemma showNat_chars: "c \<in> set (showNat n) \<Longrightarrow> c \<in> set ''0123456789''"
  using showNat_digits [of n] by (rule subsetD)

lemma numberToString_chars:
  assumes "c \<in> set (numberToString i)"
  shows "c \<in> set ''-0123456789''"
proof (cases "c = CHR ''-''")
  case True
  then show ?thesis by simp
next
  case False
  with assms have "c \<in> set (showNat (nat (- i))) \<or> c \<in> set (showNat (nat i))"
    by (simp add: numberToString_def split: if_splits)
  then have "c \<in> set ''0123456789''" using showNat_chars by blast
  then show ?thesis by simp
qed

section \<open>The key serializer: what the key depends on\<close>

lemma stableKey_loop_append:
  "stableKey_loop J obj ks out = out @ concat (map (\<lambda>k. k @ ''='' @ tagged J (objGet obj k) @ '';'') ks)"
  by (induction ks arbitrary: out) simp_all

lemma stableKey_concat:
  "stableKey J obj = concat (map (\<lambda>k. k @ ''='' @ tagged J (objGet obj k) @ '';'') (sort (Object_keys obj)))"
  by (simp add: stableKey_def stableKey_loop_append)

lemma sort_keys_eq:
  assumes "distinct (map fst a)" "distinct (map fst b)" "set a = set b"
  shows "sort (Object_keys a) = sort (Object_keys b)"
proof -
  have "set (map fst a) = set (map fst b)" using assms(3) by simp
  then have "mset (map fst a) = mset (map fst b)"
    using set_eq_iff_mset_eq_distinct [OF assms(1,2)] by blast
  then have "mset (sort (map fst b)) = mset (map fst a)" by simp
  then have "sort (map fst a) = sort (map fst b)"
    by (rule properties_for_sort) simp
  then show ?thesis by (simp add: Object_keys_def)
qed

lemma objGet_eq:
  assumes "distinct (map fst a)" "distinct (map fst b)" "set a = set b"
  shows "objGet a = objGet b"
proof -
  have "map_of a = map_of b" using assms by (simp add: map_of_inject_set)
  then show ?thesis by (simp add: objGet_def fun_eq_iff)
qed

lemma stableKey_same_fields:
  assumes "distinct (map fst a)" "distinct (map fst b)" "set a = set b"
  shows "stableKey J a = stableKey J b"
  by (simp add: stableKey_concat sort_keys_eq [OF assms] objGet_eq [OF assms])

lemma map_fst_replace:
  "map fst (map (\<lambda>(k', v'). if k' = k then (k', v) else (k', v')) obj) = map fst obj"
  by (induction obj) (auto split: prod.splits)

lemma objSet_keys: "set (map fst (objSet obj k v)) = insert k (set (map fst obj))"
proof (cases "k \<in> set (map fst obj)")
  case True
  then have "set (map fst (objSet obj k v)) = set (map fst obj)"
    unfolding objSet_def by (simp only: if_True map_fst_replace)
  with True show ?thesis by (simp only: insert_absorb)
next
  case False
  then show ?thesis unfolding objSet_def by simp
qed












section \<open>The key serializer: reading the key back\<close>

lemma tagged_scalar_inj:
  "scalar v \<Longrightarrow> scalar w \<Longrightarrow> tagged J v = tagged J w \<Longrightarrow> v = w"
  by (cases v; cases w) (auto dest: numberToString_inj split: if_splits)

lemma split_at_delim:
  "c \<notin> set s \<Longrightarrow> c \<notin> set t \<Longrightarrow> s @ c # r = t @ c # r' \<Longrightarrow> s = t \<and> r = r'"
proof (induction s arbitrary: t)
  case Nil
  then show ?case by (cases t) simp_all
next
  case (Cons a s)
  show ?case
  proof (cases t)
    case Nil
    with Cons.prems show ?thesis by simp
  next
    case (Cons b t')
    with Cons.prems have "a = b" "s @ c # r = t' @ c # r'" "c \<notin> set s" "c \<notin> set t'" by simp_all
    with Cons.IH [of t'] Cons show ?thesis by simp
  qed
qed

lemma segments_inj:
  assumes "\<forall>x\<in>set xs. c \<notin> set x" "\<forall>y\<in>set ys. c \<notin> set y"
    and "concat (map (\<lambda>s. s @ [c]) xs) = concat (map (\<lambda>s. s @ [c]) ys)"
  shows "xs = ys"
  using assms
proof (induction xs arbitrary: ys)
  case Nil
  then show ?case by (cases ys) simp_all
next
  case (Cons x xs)
  show ?case
  proof (cases ys)
    case Nil
    with Cons.prems show ?thesis by simp
  next
    case ys: (Cons y ys')
    from Cons.prems(3) ys
    have e: "x @ c # concat (map (\<lambda>s. s @ [c]) xs) = y @ c # concat (map (\<lambda>s. s @ [c]) ys')"
      by simp
    have nx: "c \<notin> set x" and ny: "c \<notin> set y" using Cons.prems(1,2) ys by simp_all
    from split_at_delim [OF nx ny e]
    have xy: "x = y" and rest: "concat (map (\<lambda>s. s @ [c]) xs) = concat (map (\<lambda>s. s @ [c]) ys')"
      by simp_all
    have "xs = ys'"
      using Cons.prems(1,2) ys by (intro Cons.IH [OF _ _ rest]) simp_all
    with xy ys show ?thesis by simp
  qed
qed

lemma objGet_mem:
  "distinct (map fst obj) \<Longrightarrow> (k, v) \<in> set obj \<Longrightarrow> objGet obj k = v"
  by (simp add: objGet_def)

lemma objGet_key:
  assumes "k \<in> set (Object_keys obj)"
  shows "(k, objGet obj k) \<in> set obj"
proof -
  from assms obtain v where "map_of obj k = Some v"
    unfolding Object_keys_def by (metis map_of_eq_None_iff not_Some_eq set_map)
  then show ?thesis by (simp add: objGet_def map_of_SomeD)
qed

lemma tagged_no_semicolon:
  assumes "scalar v" "case v of Str s \<Rightarrow> CHR '';'' \<notin> set s | _ \<Rightarrow> True"
  shows "CHR '';'' \<notin> set (tagged J v)"
proof (cases v)
  case (Num n)
  have "CHR '';'' \<notin> set (numberToString n)"
    using numberToString_chars [of "CHR '';''" n] by auto
  with Num show ?thesis by simp
qed (use assms in simp_all)

lemma delimiterFree_key:
  assumes "delimiterFree obj" "k \<in> set (Object_keys obj)"
  shows "CHR '';'' \<notin> set k" "CHR ''='' \<notin> set k" "scalar (objGet obj k)"
    "CHR '';'' \<notin> set (tagged J (objGet obj k))"
proof -
  from objGet_key [OF assms(2)] assms(1)
  have *: "CHR '';'' \<notin> set k \<and> CHR ''='' \<notin> set k \<and> scalar (objGet obj k)
     \<and> (case objGet obj k of Str s \<Rightarrow> CHR '';'' \<notin> set s | _ \<Rightarrow> True)"
    unfolding delimiterFree_def list_all_iff by fastforce
  then show "CHR '';'' \<notin> set k" "CHR ''='' \<notin> set k" "scalar (objGet obj k)" by simp_all
  from * show "CHR '';'' \<notin> set (tagged J (objGet obj k))"
    by (intro tagged_no_semicolon) simp_all
qed

lemma entries_inj:
  assumes "\<forall>k\<in>set ks. c \<notin> set k" "\<forall>k\<in>set ks'. c \<notin> set k"
    and "map (\<lambda>k. k @ c # f k) ks = map (\<lambda>k. k @ c # g k) ks'"
  shows "ks = ks' \<and> (\<forall>k\<in>set ks. f k = g k)"
  using assms
proof (induction ks arbitrary: ks')
  case Nil
  then show ?case by simp
next
  case (Cons k ks)
  from Cons.prems(3) obtain k' ks'' where ks': "ks' = k' # ks''" by (cases ks') auto
  with Cons.prems(3) have e: "k @ c # f k = k' @ c # g k'"
    and r: "map (\<lambda>k. k @ c # f k) ks = map (\<lambda>k. k @ c # g k) ks''" by simp_all
  have "c \<notin> set k" "c \<notin> set k'" using Cons.prems(1,2) ks' by simp_all
  from split_at_delim [OF this e] have kk: "k = k'" and fg: "f k = g k" by auto
  have "ks = ks'' \<and> (\<forall>k\<in>set ks. f k = g k)"
    using Cons.prems(1,2) ks' by (intro Cons.IH [OF _ _ r]) simp_all
  with kk fg ks' show ?case by simp
qed

lemma stableKey_entries:
  assumes da: "delimiterFree a" and db: "delimiterFree b"
    and e: "stableKey J a = stableKey J b"
  shows "sort (Object_keys a) = sort (Object_keys b)"
    and "\<forall>k\<in>set (Object_keys a). tagged J (objGet a k) = tagged J (objGet b k)"
proof -
  let ?seg = "\<lambda>obj k. k @ CHR ''='' # tagged J (objGet obj k)"
  have c: "\<And>obj. stableKey J obj =
      concat (map (\<lambda>s. s @ [CHR '';'']) (map (?seg obj) (sort (Object_keys obj))))"
    by (simp add: stableKey_concat comp_def)
  have sa: "\<forall>x\<in>set (map (?seg a) (sort (Object_keys a))). CHR '';'' \<notin> set x"
    using delimiterFree_key [OF da] by auto
  have sb: "\<forall>x\<in>set (map (?seg b) (sort (Object_keys b))). CHR '';'' \<notin> set x"
    using delimiterFree_key [OF db] by auto
  have m: "map (?seg a) (sort (Object_keys a)) = map (?seg b) (sort (Object_keys b))"
    using e unfolding c by (rule segments_inj [OF sa sb])
  have ka: "\<forall>k\<in>set (sort (Object_keys a)). CHR ''='' \<notin> set k"
    using delimiterFree_key(2) [OF da] by simp
  have kb: "\<forall>k\<in>set (sort (Object_keys b)). CHR ''='' \<notin> set k"
    using delimiterFree_key(2) [OF db] by simp
  from entries_inj [OF ka kb m]
  show "sort (Object_keys a) = sort (Object_keys b)"
    and "\<forall>k\<in>set (Object_keys a). tagged J (objGet a k) = tagged J (objGet b k)"
    by simp_all
qed

lemma stableKey_subset:
  assumes "distinct (map fst a)" "distinct (map fst b)"
    and da: "delimiterFree a" and db: "delimiterFree b"
    and e: "stableKey J a = stableKey J b"
  shows "set a \<subseteq> set b"
proof
  fix p assume p: "p \<in> set a"
  obtain k v where kv: "p = (k, v)" by (cases p)
  from p kv have ka: "k \<in> set (Object_keys a)" by (force simp: Object_keys_def)
  from stableKey_entries(1) [OF da db e] have "set (Object_keys a) = set (Object_keys b)"
    by (metis set_sort)
  with ka have kb: "k \<in> set (Object_keys b)" by simp
  from stableKey_entries(2) [OF da db e] ka
  have "tagged J (objGet a k) = tagged J (objGet b k)" by simp
  then have "objGet a k = objGet b k"
    using delimiterFree_key(3) [OF da ka] delimiterFree_key(3) [OF db kb]
    by (rule tagged_scalar_inj [rotated 2])
  moreover have "objGet a k = v" using p kv assms(1) by (simp add: objGet_mem)
  ultimately have "objGet b k = v" by simp
  with objGet_key [OF kb] kv show "p \<in> set b" by simp
qed

section \<open>The caches keep what they hold\<close>










section \<open>Claims about the key serializer\<close>

text \<open>
  C1.  Two field maps with exactly the same (name, value) pairs get the same key from
  \<open>stableKey\<close>, in whatever order the fields were supplied.  A field map is an object:
  its names are pairwise distinct.
\<close>

theorem stableKey_order_independent:
  assumes "distinct (map fst a)" and "distinct (map fst b)" and "set a = set b"
  shows "stableKey J a = stableKey J b"
  using assms by (rule stableKey_same_fields)

theorem stableKey_order_independent_witness:
  "distinct (map fst [(''year'', Str ''numeric''), (''locale'', Str ''en-US''), (''hour12'', Bool True)])
   \<and> distinct (map fst [(''hour12'', Bool True), (''year'', Str ''numeric''), (''locale'', Str ''en-US'')])
   \<and> set [(''year'', Str ''numeric''), (''locale'', Str ''en-US''), (''hour12'', Bool True)]
       = set [(''hour12'', Bool True), (''year'', Str ''numeric''), (''locale'', Str ''en-US'')]
   \<and> stableKey sampleStringify
         [(''year'', Str ''numeric''), (''locale'', Str ''en-US''), (''hour12'', Bool True)]
       = stableKey sampleStringify
         [(''hour12'', Bool True), (''year'', Str ''numeric''), (''locale'', Str ''en-US'')]"
proof -
  let ?a = "[(''year'', Str ''numeric''), (''locale'', Str ''en-US''), (''hour12'', Bool True)]"
  let ?b = "[(''hour12'', Bool True), (''year'', Str ''numeric''), (''locale'', Str ''en-US'')]"
  have da: "distinct (map fst ?a)" and db: "distinct (map fst ?b)" by simp_all
  have s: "set ?a = set ?b" by auto
  from stableKey_order_independent [OF da db s, of sampleStringify] da db s
  show ?thesis by blast
qed

text \<open>
  C2, as the specification states it: two field maps that differ in a pair get different
  keys.  The key is a plain concatenation, so a string value that holds the separator
  can imitate a further field: the two maps below differ and share their key.
\<close>

theorem stableKey_collision:
  "set [(''timeZone'', Str ''UTC;year=s:numeric'')]
     \<noteq> set [(''timeZone'', Str ''UTC''), (''year'', Str ''numeric'')]
   \<and> stableKey sampleStringify [(''timeZone'', Str ''UTC;year=s:numeric'')]
     = stableKey sampleStringify [(''timeZone'', Str ''UTC''), (''year'', Str ''numeric'')]"
  by (simp add: stableKey_def Object_keys_def objGet_def)

text \<open>
  C2, amended.  On field maps whose names hold neither \<open>=\<close> nor \<open>;\<close> and whose values are
  scalars (undefined, null, booleans, numbers, and strings that hold no \<open>;\<close>), the
  serializer is injective: two such maps that differ in at least one (name, value) pair,
  the presence or absence of a field included, get different keys.
\<close>

theorem stableKey_injective:
  assumes "distinct (map fst a)" and "distinct (map fst b)"
    and "delimiterFree a" and "delimiterFree b"
    and "set a \<noteq> set b"
  shows "stableKey J a \<noteq> stableKey J b"
proof
  assume e: "stableKey J a = stableKey J b"
  have "set a \<subseteq> set b" using assms(1-4) e by (rule stableKey_subset)
  moreover have "set b \<subseteq> set a" using assms(2,1,4,3) e [symmetric] by (rule stableKey_subset)
  ultimately show False using assms(5) by simp
qed

theorem stableKey_injective_witness:
  "distinct (map fst [(''year'', Str ''numeric'')])
   \<and> distinct (map fst [(''year'', Str ''numeric''), (''timeZone'', Undefined)])
   \<and> delimiterFree [(''year'', Str ''numeric'')]
   \<and> delimiterFree [(''year'', Str ''numeric''), (''timeZone'', Undefined)]
   \<and> set [(''year'', Str ''numeric'')] \<noteq> set [(''year'', Str ''numeric''), (''timeZone'', Undefined)]
   \<and> stableKey sampleStringify [(''year'', Str ''numeric'')]
       \<noteq> stableKey sampleStringify [(''year'', Str ''numeric''), (''timeZone'', Undefined)]"
proof -
  let ?a = "[(''year'', Str ''numeric'')]"
  let ?b = "[(''year'', Str ''numeric''), (''timeZone'', Undefined)]"
  have da: "distinct (map fst ?a)" and db: "distinct (map fst ?b)" by simp_all
  have fa: "delimiterFree ?a" and fb: "delimiterFree ?b" by (simp_all add: delimiterFree_def)
  have ne: "set ?a \<noteq> set ?b" by auto
  from stableKey_injective [OF da db fa fb ne, of sampleStringify] da db fa fb ne
  show ?thesis by blast
qed


section \<open>Claims about the rounding of a relative time\<close>

text \<open>
  C5, as the specification states it: at a difference of +90 000 ms the magnitude handed
  to the relative formatter is 2.  \<open>relative\<close> of the extended variant cuts the fraction
  off towards zero and hands over 1.
\<close>

theorem relative_90s_is_not_2:
  "fst (relative_select 90000) = 1 \<and> fst (relative_select 90000) \<noteq> 2"
  by code_simp

text \<open>
  C5, amended.  At a difference of +90 000 ms both variants select the unit minute;
  \<open>formatRelative\<close> of the simple variant rounds with \<open>Math.round\<close> and hands the
  magnitude 2 to the formatter, \<open>relative\<close> of the extended variant rounds towards zero
  and hands it the magnitude 1.
\<close>

theorem relative_90s_magnitudes:
  "formatRelative_select 90000 = (2, Minute) \<and> relative_select 90000 = (1, Minute)"
  by code_simp


section \<open>Claims about the formatter caches\<close>





section \<open>Token formatting: the first alternative is the longest token\<close>

lemma firstAlt_Some: "firstAlt alts s = Some t \<Longrightarrow> t \<in> set alts \<and> prefix t s"
  by (induction alts) (auto split: if_splits)

lemma firstAlt_None: "firstAlt alts s = None \<longleftrightarrow> (\<forall>t\<in>set alts. \<not> prefix t s)"
  by (induction alts) auto

lemma firstAlt_longest:
  "longestFirst alts \<Longrightarrow> firstAlt alts s = Some t \<Longrightarrow> u \<in> set alts \<Longrightarrow> prefix u s
   \<Longrightarrow> length u \<le> length t"
proof (induction alts)
  case Nil
  then show ?case by simp
next
  case (Cons a alts)
  show ?case
  proof (cases "prefix a s")
    case True
    with Cons.prems(2) have t: "t = a" by simp
    show ?thesis
    proof (rule ccontr)
      assume "\<not> length u \<le> length t"
      then have len: "length a < length u" using t by simp
      then have "u \<noteq> a" by auto
      with Cons.prems(3) have u: "u \<in> set alts" by simp
      from True Cons.prems(4) have "prefix a u \<or> prefix u a" by (rule prefix_same_cases)
      with len have "strict_prefix a u"
        by (metis prefix_length_le not_less prefix_order.le_neq_trans nat_less_le)
      with Cons.prems(1) u show False by (auto simp: list_all_iff)
    qed
  next
    case False
    with Cons.prems(3,4) have "u \<in> set alts" by auto
    with Cons False show ?thesis by simp
  qed
qed

lemma fold_longer:
  "fold (\<lambda>t best. if length best < length t then t else best) ms m \<in> set (m # ms)
   \<and> (\<forall>u\<in>set (m # ms). length u \<le> length (fold (\<lambda>t best. if length best < length t then t else best) ms m))"
proof (induction ms arbitrary: m)
  case Nil
  show ?case by simp
next
  case (Cons a ms)
  show ?case using Cons.IH [of a] Cons.IH [of m] by (auto simp: not_less intro: order_trans)
qed

lemma longestToken_Some:
  assumes "longestToken toks s = Some t"
  shows "t \<in> set toks" "prefix t s" "\<And>u. u \<in> set toks \<Longrightarrow> prefix u s \<Longrightarrow> length u \<le> length t"
proof -
  from assms obtain m ms where f: "filter (\<lambda>t. prefix t s) toks = m # ms"
    and t: "t = fold (\<lambda>t best. if length best < length t then t else best) ms m"
    by (auto simp: longestToken_def split: list.splits)
  from fold_longer [of ms m] t have "t \<in> set (m # ms)" and
    le: "\<forall>u\<in>set (m # ms). length u \<le> length t" by simp_all
  then have "t \<in> set (filter (\<lambda>t. prefix t s) toks)" using f by simp
  then show "t \<in> set toks" "prefix t s" by simp_all
  fix u assume "u \<in> set toks" "prefix u s"
  then have "u \<in> set (m # ms)" using f [symmetric] by simp
  with le show "length u \<le> length t" by blast
qed

lemma longestToken_None: "longestToken toks s = None \<longleftrightarrow> (\<forall>t\<in>set toks. \<not> prefix t s)"
proof -
  have "longestToken toks s = None \<longleftrightarrow> filter (\<lambda>t. prefix t s) toks = []"
    by (simp add: longestToken_def split: list.splits)
  then show ?thesis by (simp add: filter_empty_conv)
qed

lemma prefix_take: "prefix t s \<Longrightarrow> t = take (length t) s"
  by (auto simp: prefix_def)

lemma prefix_same_length: "prefix t s \<Longrightarrow> prefix u s \<Longrightarrow> length t = length u \<Longrightarrow> t = u"
  using prefix_take [of t s] prefix_take [of u s] by simp

lemma firstAlt_is_longestToken:
  assumes "longestFirst alts" "set alts = set toks"
  shows "firstAlt alts s = longestToken toks s"
proof (cases "firstAlt alts s")
  case None
  then show ?thesis using assms(2) by (simp add: firstAlt_None longestToken_None [THEN iffD2])
next
  case (Some t)
  from firstAlt_Some [OF Some] have t: "t \<in> set alts" "prefix t s" by simp_all
  then have "longestToken toks s \<noteq> None" using assms(2) by (auto simp: longestToken_None)
  then obtain u where u: "longestToken toks s = Some u" by auto
  from longestToken_Some [OF u] have u1: "u \<in> set toks" "prefix u s"
    and u2: "\<And>v. v \<in> set toks \<Longrightarrow> prefix v s \<Longrightarrow> length v \<le> length u" by simp_all
  have "length u \<le> length t" using firstAlt_longest [OF assms(1) Some] u1 assms(2) by simp
  moreover have "length t \<le> length u" using u2 t assms(2) by simp
  ultimately have "t = u" using t(2) u1(2) by (intro prefix_same_length) simp_all
  with Some u show ?thesis by simp
qed

lemma expand_Nil: "expand toks val [] = []"
  by (simp add: expand_def)

lemma expand_Cons:
  "expand toks val (c # s) =
     (case longestToken toks (c # s) of
        Some tok \<Rightarrow> val tok @ expand toks val (drop (length tok - 1) s)
      | None \<Rightarrow> c # expand toks val s)"
  by (simp add: expand_def split: option.splits)

lemma String_replace_is_expand:
  assumes "\<And>s. firstAlt alts s = longestToken toks s"
  shows "String_replace alts val p = expand toks val p"
  using assms
proof (induction alts val p rule: String_replace.induct)
  case (1 re fn)
  show ?case by (simp add: expand_Nil)
next
  case (2 re fn c s)
  show ?case
  proof (cases "firstAlt re (c # s)")
    case None
    with 2 show ?thesis by (simp add: expand_Cons)
  next
    case (Some tok)
    with 2 show ?thesis by (simp add: expand_Cons)
  qed
qed

lemma tokenMap_is_tokenValue:
  "(case map_of (tokenMap d) tok of Some text \<Rightarrow> text | None \<Rightarrow> tok) = tokenValue d tok"
  by (simp add: tokenMap_def tokenValue_def Let_def)

lemma formatTokens_re_longestFirst: "longestFirst formatTokens_re"
  by (simp add: formatTokens_re_def)

lemma formatTokens_re_tokens: "set formatTokens_re = set tokensExtended"
  by (auto simp: formatTokens_re_def tokensExtended_def)

lemma formatTokens_is_expand: "formatTokens d p = expand tokensExtended (tokenValue d) p"
  unfolding formatTokens_def tokenMap_is_tokenValue
  by (rule String_replace_is_expand)
     (rule firstAlt_is_longestToken [OF formatTokens_re_longestFirst formatTokens_re_tokens])

section \<open>Token formatting: the six replacements amount to one pass\<close>

lemma digitText_numberToString: "digitText (numberToString i)"
  unfolding digitText_def list_all_iff
  using numberToString_chars [of _ i] showNat_nonempty
  by (auto simp: numberToString_def)

lemma digitText_pad2: "digitText (pad2 n)"
proof -
  have "\<And>c. c \<in> set (pad2 n) \<Longrightarrow> c \<in> set ''-0123456789''"
  proof -
    fix c assume "c \<in> set (pad2 n)"
    then have "c = CHR ''0'' \<or> c \<in> set (showNat n)" by (auto simp: pad2_def split: if_splits)
    then show "c \<in> set ''-0123456789''" using showNat_chars [of c n] by auto
  qed
  moreover have "pad2 n \<noteq> []" using showNat_nonempty by (simp add: pad2_def)
  ultimately show ?thesis by (simp add: digitText_def list_all_iff)
qed

lemma digitText_notin: "digitText r \<Longrightarrow> c \<notin> set ''-0123456789'' \<Longrightarrow> c \<notin> set r"
  by (auto simp: digitText_def list_all_iff)

lemma digitText_nonempty: "digitText r \<Longrightarrow> r \<noteq> []"
  by (simp add: digitText_def)

lemma replace_skip:
  "x \<notin> set u \<Longrightarrow> String_replace [x # tok] fn (u @ s) = u @ String_replace [x # tok] fn s"
  by (induction u) auto

lemma replace_keeps_head:
  assumes "\<not> prefix [x] s" "x \<notin> set r" "r \<noteq> []"
  shows "\<not> prefix [x] (String_replace [tok] (\<lambda>_. r) s)"
proof (cases s)
  case Nil
  then show ?thesis by simp
next
  case (Cons c s')
  with assms(1) have "c \<noteq> x" by simp
  show ?thesis
  proof (cases "prefix tok (c # s')")
    case True
    from assms(3) obtain a r' where r: "r = a # r'" by (cases r) auto
    with assms(2) have "a \<noteq> x" by auto
    with True Cons r show ?thesis by simp
  next
    case False
    with Cons \<open>c \<noteq> x\<close> show ?thesis by simp
  qed
qed

lemma replace_keeps_no_pair:
  assumes "\<not> prefix [x, x] (c # s)" "x \<notin> set r" "r \<noteq> []"
  shows "\<not> prefix [x, x] (c # String_replace [tok] (\<lambda>_. r) s)"
proof (cases "c = x")
  case True
  with assms(1) have "\<not> prefix [x] s" by simp
  from replace_keeps_head [OF this assms(2,3), of tok] True show ?thesis by simp
next
  case False
  then show ?thesis by simp
qed

lemma replace_no_match:
  "\<not> prefix tok (c # s) \<Longrightarrow> String_replace [tok] fn (c # s) = c # String_replace [tok] fn s"
  by simp

lemma formatTokensLocal_sixPasses:
  "formatTokensLocal d p =
     sixPasses (numberToString (getFullYear d)) (pad2 (getMonth d + 1)) (pad2 (getDate d))
       (pad2 (getHours d)) (pad2 (getMinutes d)) (pad2 (getSeconds d)) p"
  by (simp add: formatTokensLocal_def sixPasses_def Let_def)

lemma sixPasses_Nil: "sixPasses rY rM rD rH rm rs [] = []"
  by (simp add: sixPasses_def)

lemma sixPasses_token:
  assumes "digitText rY" "digitText rM" "digitText rD" "digitText rH" "digitText rm" "digitText rs"
  shows "sixPasses rY rM rD rH rm rs (''YYYY'' @ s) = rY @ sixPasses rY rM rD rH rm rs s"
    and "sixPasses rY rM rD rH rm rs (''MM'' @ s) = rM @ sixPasses rY rM rD rH rm rs s"
    and "sixPasses rY rM rD rH rm rs (''DD'' @ s) = rD @ sixPasses rY rM rD rH rm rs s"
    and "sixPasses rY rM rD rH rm rs (''HH'' @ s) = rH @ sixPasses rY rM rD rH rm rs s"
    and "sixPasses rY rM rD rH rm rs (''mm'' @ s) = rm @ sixPasses rY rM rD rH rm rs s"
    and "sixPasses rY rM rD rH rm rs (''ss'' @ s) = rs @ sixPasses rY rM rD rH rm rs s"
  using assms
  by (simp_all add: sixPasses_def replace_skip digitText_notin)

lemma sixPasses_literal:
  assumes "digitText rY" "digitText rM" "digitText rD" "digitText rH" "digitText rm" "digitText rs"
    and nY: "\<not> prefix ''YYYY'' (c # s)" and nM: "\<not> prefix ''MM'' (c # s)"
    and nD: "\<not> prefix ''DD'' (c # s)" and nH: "\<not> prefix ''HH'' (c # s)"
    and nm: "\<not> prefix ''mm'' (c # s)" and ns: "\<not> prefix ''ss'' (c # s)"
  shows "sixPasses rY rM rD rH rm rs (c # s) = c # sixPasses rY rM rD rH rm rs s"
proof -
  note ne = assms(1-6) [THEN digitText_nonempty]
  have notin: "\<And>r x. digitText r \<Longrightarrow> x \<in> set ''YMDHms'' \<Longrightarrow> x \<notin> set r"
    by (rule digitText_notin) auto
  let ?s1 = "String_replace [''YYYY''] (\<lambda>_. rY) s"
  let ?s2 = "String_replace [''MM''] (\<lambda>_. rM) ?s1"
  let ?s3 = "String_replace [''DD''] (\<lambda>_. rD) ?s2"
  let ?s4 = "String_replace [''HH''] (\<lambda>_. rH) ?s3"
  let ?s5 = "String_replace [''mm''] (\<lambda>_. rm) ?s4"
  let ?s6 = "String_replace [''ss''] (\<lambda>_. rs) ?s5"
  have keep: "\<And>x r tok t. \<not> prefix [x, x] (c # t) \<Longrightarrow> digitText r \<Longrightarrow> x \<in> set ''YMDHms''
      \<Longrightarrow> \<not> prefix [x, x] (c # String_replace [tok] (\<lambda>_. r) t)"
    by (rule replace_keeps_no_pair) (simp_all add: notin digitText_nonempty)
  have 1: "String_replace [''YYYY''] (\<lambda>_. rY) (c # s) = c # ?s1"
    using nY by (rule replace_no_match)
  have "\<not> prefix ''MM'' (c # ?s1)"
    using nM assms(1) by (intro keep) simp_all
  then have 2: "String_replace [''MM''] (\<lambda>_. rM) (c # ?s1) = c # ?s2"
    by (rule replace_no_match)
  have "\<not> prefix ''DD'' (c # ?s2)"
    using nD assms(1,2) by (intro keep) simp_all
  then have 3: "String_replace [''DD''] (\<lambda>_. rD) (c # ?s2) = c # ?s3"
    by (rule replace_no_match)
  have "\<not> prefix ''HH'' (c # ?s3)"
    using nH assms(1,2,3) by (intro keep) simp_all
  then have 4: "String_replace [''HH''] (\<lambda>_. rH) (c # ?s3) = c # ?s4"
    by (rule replace_no_match)
  have "\<not> prefix ''mm'' (c # ?s4)"
    using nm assms(1,2,3,4) by (intro keep) simp_all
  then have 5: "String_replace [''mm''] (\<lambda>_. rm) (c # ?s4) = c # ?s5"
    by (rule replace_no_match)
  have "\<not> prefix ''ss'' (c # ?s5)"
    using ns assms(1,2,3,4,5) by (intro keep) simp_all
  then have 6: "String_replace [''ss''] (\<lambda>_. rs) (c # ?s5) = c # ?s6"
    by (rule replace_no_match)
  show ?thesis
    unfolding sixPasses_def by (simp only: 1 2 3 4 5 6)
qed

lemma prefix_drop_tail:
  assumes "prefix tok (c # s)" "tok \<noteq> []"
  shows "c # s = tok @ drop (length tok - 1) s"
proof -
  from assms obtain t where t: "tok = c # t" by (cases tok) auto
  with assms(1) have "prefix t s" by simp
  then have "s = t @ drop (length t) s" by (auto simp: prefix_def)
  with t show ?thesis by simp
qed

lemma sixPasses_is_expand:
  assumes "digitText (val ''YYYY'')" "digitText (val ''MM'')" "digitText (val ''DD'')"
    "digitText (val ''HH'')" "digitText (val ''mm'')" "digitText (val ''ss'')"
  shows "sixPasses (val ''YYYY'') (val ''MM'') (val ''DD'') (val ''HH'') (val ''mm'') (val ''ss'') p
       = expand tokensSimple val p"
proof (induction tokensSimple p rule: pieces.induct)
  case 1
  show ?case by (simp add: sixPasses_Nil expand_Nil)
next
  case (2 c s)
  show ?case
  proof (cases "longestToken tokensSimple (c # s)")
    case None
    then have "\<forall>t\<in>set tokensSimple. \<not> prefix t (c # s)" by (simp add: longestToken_None)
    then have n: "\<not> prefix ''YYYY'' (c # s)" "\<not> prefix ''MM'' (c # s)" "\<not> prefix ''DD'' (c # s)"
      "\<not> prefix ''HH'' (c # s)" "\<not> prefix ''mm'' (c # s)" "\<not> prefix ''ss'' (c # s)"
      by (simp_all add: tokensSimple_def)
    from sixPasses_literal [OF assms n] 2(1) [OF None] None
    show ?thesis by (simp add: expand_Cons)
  next
    case (Some tok)
    from longestToken_Some(1,2) [OF Some] have mem: "tok \<in> set tokensSimple"
      and pre: "prefix tok (c # s)" .
    from mem have ne: "tok \<noteq> []" by (auto simp: tokensSimple_def)
    from prefix_drop_tail [OF pre ne] have cs: "c # s = tok @ drop (length tok - 1) s" .
    let ?rest = "drop (length tok - 1) s"
    have "sixPasses (val ''YYYY'') (val ''MM'') (val ''DD'') (val ''HH'') (val ''mm'') (val ''ss'')
            (tok @ ?rest)
        = val tok @ sixPasses (val ''YYYY'') (val ''MM'') (val ''DD'') (val ''HH'') (val ''mm'')
            (val ''ss'') ?rest"
      using mem sixPasses_token [OF assms, of ?rest]
      unfolding tokensSimple_def by auto
    then have lhs: "sixPasses (val ''YYYY'') (val ''MM'') (val ''DD'') (val ''HH'') (val ''mm'')
            (val ''ss'') (c # s)
        = val tok @ sixPasses (val ''YYYY'') (val ''MM'') (val ''DD'') (val ''HH'') (val ''mm'')
            (val ''ss'') ?rest"
      by (simp only: cs [symmetric])
    have rhs: "expand tokensSimple val (c # s) = val tok @ expand tokensSimple val ?rest"
      by (simp add: expand_Cons Some)
    show ?thesis
      unfolding lhs rhs using 2(2) [OF Some] by simp
  qed
qed

lemma formatTokensLocal_is_expand:
  "formatTokensLocal d p = expand tokensSimple (tokenValue d) p"
proof -
  have v: "tokenValue d ''YYYY'' = numberToString (getFullYear d)"
    "tokenValue d ''MM'' = pad2 (getMonth d + 1)" "tokenValue d ''DD'' = pad2 (getDate d)"
    "tokenValue d ''HH'' = pad2 (getHours d)" "tokenValue d ''mm'' = pad2 (getMinutes d)"
    "tokenValue d ''ss'' = pad2 (getSeconds d)"
    by (simp_all add: tokenValue_def)
  have "sixPasses (tokenValue d ''YYYY'') (tokenValue d ''MM'') (tokenValue d ''DD'')
          (tokenValue d ''HH'') (tokenValue d ''mm'') (tokenValue d ''ss'') p
        = expand tokensSimple (tokenValue d) p"
    by (rule sixPasses_is_expand) (simp_all add: v digitText_numberToString digitText_pad2)
  then show ?thesis by (simp add: formatTokensLocal_sixPasses v)
qed

lemma replace_skip_all: "x \<notin> set u \<Longrightarrow> String_replace [x # tok] fn u = u"
  using replace_skip [of x u tok fn "[]"] by simp


section \<open>Claims about token formatting\<close>

text \<open>
  C6.  Token formatting is one pass from left to right that takes the longest recognized
  token at each position and copies every other character: both \<open>formatTokens\<close> (one
  combined regular expression) and \<open>formatTokensLocal\<close> (six replacements in a row) return
  what \<open>expand\<close> returns, which cuts the pattern into pieces once and never looks at a
  rendered text again.  The pattern \<open>YYYY-MM-DD\<close> on the local date 2025-12-27 gives
  \<open>2025-12-27\<close>, and \<open>YYYYMM\<close> is cut into \<open>YYYY\<close> and \<open>MM\<close> and gives the year followed by
  the two-digit month.
\<close>

theorem token_formatting_single_pass:
  "formatTokens d pattern = expand tokensExtended (tokenValue d) pattern
   \<and> formatTokensLocal d pattern = expand tokensSimple (tokenValue d) pattern
   \<and> formatTokens \<lparr>getFullYear = 2025, getMonth = 11, getDate = 27,
                    getHours = hh, getMinutes = mm, getSeconds = ss\<rparr> ''YYYY-MM-DD''
       = ''2025-12-27''
   \<and> formatTokensLocal \<lparr>getFullYear = 2025, getMonth = 11, getDate = 27,
                         getHours = hh, getMinutes = mm, getSeconds = ss\<rparr> ''YYYY-MM-DD''
       = ''2025-12-27''
   \<and> pieces tokensExtended ''YYYYMM'' = [Token ''YYYY'', Token ''MM'']
   \<and> pieces tokensSimple ''YYYYMM'' = [Token ''YYYY'', Token ''MM'']
   \<and> formatTokens d ''YYYYMM'' = numberToString (getFullYear d) @ pad2 (getMonth d + 1)
   \<and> formatTokensLocal d ''YYYYMM'' = numberToString (getFullYear d) @ pad2 (getMonth d + 1)"
proof (intro conjI)
  show "formatTokens d pattern = expand tokensExtended (tokenValue d) pattern"
    by (rule formatTokens_is_expand)
  show "formatTokensLocal d pattern = expand tokensSimple (tokenValue d) pattern"
    by (rule formatTokensLocal_is_expand)
  show "formatTokens \<lparr>getFullYear = 2025, getMonth = 11, getDate = 27,
                    getHours = hh, getMinutes = mm, getSeconds = ss\<rparr> ''YYYY-MM-DD''
       = ''2025-12-27''"
    by (simp add: formatTokens_def formatTokens_re_def tokenMap_def Let_def numberToString_def
        pad2_def showNat.simps digitChar_def)
  show "formatTokensLocal \<lparr>getFullYear = 2025, getMonth = 11, getDate = 27,
                         getHours = hh, getMinutes = mm, getSeconds = ss\<rparr> ''YYYY-MM-DD''
       = ''2025-12-27''"
    by (simp add: formatTokensLocal_def Let_def numberToString_def pad2_def showNat.simps
        digitChar_def)
  show "pieces tokensExtended ''YYYYMM'' = [Token ''YYYY'', Token ''MM'']"
    by (simp add: tokensExtended_def longestToken_def)
  show "pieces tokensSimple ''YYYYMM'' = [Token ''YYYY'', Token ''MM'']"
    by (simp add: tokensSimple_def longestToken_def)
  show "formatTokens d ''YYYYMM'' = numberToString (getFullYear d) @ pad2 (getMonth d + 1)"
    by (simp add: formatTokens_def formatTokens_re_def tokenMap_def Let_def)
  show "formatTokensLocal d ''YYYYMM'' = numberToString (getFullYear d) @ pad2 (getMonth d + 1)"
    by (simp add: formatTokensLocal_sixPasses sixPasses_def replace_skip replace_skip_all
        digitText_notin digitText_numberToString digitText_pad2)
qed

theorem token_formatting_single_pass_witness:
  "formatTokens \<lparr>getFullYear = 2025, getMonth = 11, getDate = 27,
                  getHours = 21, getMinutes = 5, getSeconds = 0\<rparr> ''DD.MM.YYYY HH:mm D/M''
     = ''27.12.2025 21:05 27/12''
   \<and> expand tokensExtended
        (tokenValue \<lparr>getFullYear = 2025, getMonth = 11, getDate = 27,
                      getHours = 21, getMinutes = 5, getSeconds = 0\<rparr>) ''DD.MM.YYYY HH:mm D/M''
     = ''27.12.2025 21:05 27/12''
   \<and> formatTokensLocal \<lparr>getFullYear = 2025, getMonth = 11, getDate = 27,
                         getHours = 21, getMinutes = 5, getSeconds = 0\<rparr> ''DD.MM.YYYY HH:mm D/M''
     = ''27.12.2025 21:05 D/M''
   \<and> expand tokensSimple
        (tokenValue \<lparr>getFullYear = 2025, getMonth = 11, getDate = 27,
                      getHours = 21, getMinutes = 5, getSeconds = 0\<rparr>) ''DD.MM.YYYY HH:mm D/M''
     = ''27.12.2025 21:05 D/M''"
proof -
  let ?d = "\<lparr>getFullYear = 2025, getMonth = 11, getDate = 27,
             getHours = 21, getMinutes = 5, getSeconds = 0\<rparr>"
  let ?p = "''DD.MM.YYYY HH:mm D/M''"
  have a: "formatTokens ?d ?p = ''27.12.2025 21:05 27/12''"
    by code_simp
  have b: "formatTokensLocal ?d ?p = ''27.12.2025 21:05 D/M''"
    by code_simp
  from token_formatting_single_pass [of ?d ?p]
  have e1: "formatTokens ?d ?p = expand tokensExtended (tokenValue ?d) ?p"
    and e2: "formatTokensLocal ?d ?p = expand tokensSimple (tokenValue ?d) ?p"
    by blast+
  show ?thesis
    unfolding e1 [symmetric] e2 [symmetric] using a b by blast
qed


section \<open>The UTC calendar: moving the day of the month moves the time by whole days\<close>

lemma MonthFromTime_range: "0 \<le> MonthFromTime t \<and> MonthFromTime t \<le> 11"
  by (simp add: MonthFromTime_def Let_def)

lemma DateFromTime_eq:
  "DateFromTime t = DayWithinYear t - firstDayOfMonth (MonthFromTime t) (InLeapYear t) + 1"
  by (simp add: DateFromTime_def MonthFromTime_def firstDayOfMonth_def Let_def)

lemma MakeDay_of_same_month:
  "MakeDay (YearFromTime t) (MonthFromTime t) (DateFromTime t + n) = DayNumber t + n"
proof -
  have m: "MonthFromTime t div 12 = 0" "MonthFromTime t mod 12 = MonthFromTime t"
    using MonthFromTime_range [of t] by simp_all
  show ?thesis
    by (simp add: MakeDay_def Let_def m DateFromTime_eq DayWithinYear_def InLeapYear_def)
qed

lemma MakeDate_of_same_time: "MakeDate (DayNumber t + n) (TimeWithinDay t) = t + n * msPerDay"
proof -
  have "t div msPerDay * msPerDay + t mod msPerDay = t" by simp
  then show ?thesis
    by (simp add: MakeDate_def DayNumber_def TimeWithinDay_def algebra_simps)
qed

lemma setUTCDate_getUTCDate:
  "Date_setUTCDate (Some t) (map_option (\<lambda>x. x + n) (Date_getUTCDate (Some t)))
     = TimeClip (t + n * msPerDay)"
  by (simp add: Date_setUTCDate_def Date_getUTCDate_def MakeDay_of_same_month
      MakeDate_of_same_time)

lemma Date_getTime_new: "Date_getTime (snd (new_Date st tv)) (fst (new_Date st tv)) = tv"
  by (simp add: new_Date_def Date_getTime_def)

lemma addDays_valid:
  assumes "timeValueOf h st input = Some t"
  shows "addDays h st input n =
     (Inr (length (dateHeap (snd (toDate h st input)))),
      (snd (toDate h st input))\<lparr>dateHeap :=
         dateHeap (snd (toDate h st input)) @ [TimeClip (t + n * msPerDay)]\<rparr>)"
proof -
  obtain d st1 where td: "toDate h st input = (d, st1)" by (cases "toDate h st input")
  with assms have g: "Date_getTime st1 d = Some t" by (simp add: timeValueOf_def)
  show ?thesis
    using g
    by (simp add: addDays_def td assertValid_def new_Date_def Let_def Date_getTime_def
        Date_setTime_def setUTCDate_getUTCDate)
qed

lemma addDays_invalid:
  assumes "timeValueOf h st input = None"
  shows "addDays h st input n = (Inl InvalidDate, snd (toDate h st input))"
proof -
  obtain d st1 where td: "toDate h st input = (d, st1)" by (cases "toDate h st input")
  with assms have g: "Date_getTime st1 d = None" by (simp add: timeValueOf_def)
  show ?thesis using g by (simp add: addDays_def td assertValid_def)
qed

section \<open>The dispatcher of the simple variant\<close>

lemma dtf_heap: "dateHeap (snd (dtf h st l tz opts)) = dateHeap st"
  by (auto simp: dtf_def Let_def dtfCache_get_def dtfCache_set_def new_DateTimeFormat_def
      split: option.splits prod.splits sum.splits if_splits)

lemma dtf_accepted:
  assumes "\<forall>l opts. dtfAccepts h l opts"
  shows "\<exists>f. fst (dtf h st l tz opts) = Inr f"
  using assms
  by (auto simp: dtf_def Let_def dtfCache_get_def dtfCache_set_def new_DateTimeFormat_def
      split: option.splits prod.splits sum.splits if_splits)

lemma formatPreset_accepted:
  assumes "\<forall>l opts. dtfAccepts h l opts" "Date_getTime st d \<noteq> None"
  shows "\<exists>text. fst (formatPreset h st d preset opts) = Inr text"
proof -
  let ?call = "\<lambda>options. dtf h st (objGet opts ''locale'') (objGet opts ''timeZone'') options"
  have *: "\<exists>text. fst (case ?call options of
                (Inl e, st1) \<Rightarrow> (Inl e, st1)
              | (Inr fmt, st1) \<Rightarrow> DateTimeFormat_format h st1 fmt d) = Inr text" for options
  proof -
    from dtf_accepted [OF assms(1)] obtain f where f: "fst (?call options) = Inr f" by blast
    obtain r st1 where c: "?call options = (r, st1)" by (cases "?call options")
    with f have r: "r = Inr f" by simp
    have "dateHeap st1 = dateHeap st" using dtf_heap [of h st _ _ options] c
      by (metis snd_conv)
    then have "Date_getTime st1 d = Date_getTime st d" by (simp add: Date_getTime_def)
    then have "Date_getTime st1 d \<noteq> None" using assms(2) by simp
    then show ?thesis by (auto simp: c r DateTimeFormat_format_def split: option.splits)
  qed
  show ?thesis unfolding formatPreset_def Let_def by (rule *)
qed

lemma toDate_keeps:
  "dtfCache (snd (toDate h st input)) = dtfCache st"
  "rtfCache (snd (toDate h st input)) = rtfCache st"
  "events (snd (toDate h st input)) = events st"
  by (simp_all add: toDate_def new_Date_def split: DateInput.splits)


section \<open>Claims about the dispatcher\<close>

text \<open>
  C7.  A mode string that is not \<open>relative\<close>, not a preset name and holds no recognized
  token makes \<open>format\<close> do exactly what it does for the preset \<open>date\<close>: the same result
  and the same state afterwards, for every input and all options.  The mode itself never
  raises: for a valid input, on a host whose formatter constructor accepts its arguments,
  the call returns a string.
\<close>

theorem format_falls_back_to_date:
  assumes "mode \<noteq> ''relative''" and "mode \<noteq> ''time''" and "mode \<noteq> ''datetime''"
    and "\<not> RegExp_test TOKEN_RE mode"
  shows "format h st input mode opts = format h st input ''date'' opts
       \<and> (timeValueOf h st input \<noteq> None \<longrightarrow> (\<forall>l os. dtfAccepts h l os) \<longrightarrow>
            (\<exists>text. fst (format h st input mode opts) = Inr text))"
proof
  show e: "format h st input mode opts = format h st input ''date'' opts"
    using assms by (simp add: format_def split: prod.splits option.splits)
  show "timeValueOf h st input \<noteq> None \<longrightarrow> (\<forall>l os. dtfAccepts h l os) \<longrightarrow>
            (\<exists>text. fst (format h st input mode opts) = Inr text)"
  proof (intro impI)
    assume v: "timeValueOf h st input \<noteq> None" and a: "\<forall>l os. dtfAccepts h l os"
    obtain d st1 where td: "toDate h st input = (d, st1)" by (cases "toDate h st input")
    with v have g: "Date_getTime st1 d \<noteq> None" by (simp add: timeValueOf_def)
    from formatPreset_accepted [OF a g]
    have "\<exists>text. fst (formatPreset h st1 d ''date'' opts) = Inr text" .
    then show "\<exists>text. fst (format h st input mode opts) = Inr text"
      unfolding e using g by (simp add: format_def td assertValid_def)
  qed
qed

theorem format_falls_back_to_date_witness:
  "''bogus-mode'' \<noteq> ''relative'' \<and> ''bogus-mode'' \<noteq> ''time'' \<and> ''bogus-mode'' \<noteq> ''datetime''
   \<and> \<not> RegExp_test TOKEN_RE ''bogus-mode''
   \<and> timeValueOf sampleHost emptyState (InNumber 1766793600000) \<noteq> None
   \<and> format sampleHost emptyState (InNumber 1766793600000) ''bogus-mode'' []
       = format sampleHost emptyState (InNumber 1766793600000) ''date'' []
   \<and> fst (format sampleHost emptyState (InNumber 1766793600000) ''bogus-mode'' [])
       = Inr (numberToString 1766793600000)"
proof -
  have m: "''bogus-mode'' \<noteq> ''relative''" "''bogus-mode'' \<noteq> ''time''"
    "''bogus-mode'' \<noteq> ''datetime''" by simp_all
  have t: "\<not> RegExp_test TOKEN_RE ''bogus-mode''" by (simp add: TOKEN_RE_def)
  have v: "timeValueOf sampleHost emptyState (InNumber 1766793600000) \<noteq> None"
    by (simp add: timeValueOf_def toDate_def new_Date_def TimeClip_def Date_getTime_def
        emptyState_def)
  have d: "fst (format sampleHost emptyState (InNumber 1766793600000) ''date'' [])
           = Inr (numberToString 1766793600000)"
    by (simp add: format_def toDate_def new_Date_def TimeClip_def assertValid_def
        Date_getTime_def formatPreset_def Let_def dtf_def dtfCache_get_def dtfCache_set_def
        new_DateTimeFormat_def DateTimeFormat_format_def sampleHost_def emptyState_def)
  from format_falls_back_to_date [OF m t, of sampleHost emptyState "InNumber 1766793600000" "[]"]
  have e: "format sampleHost emptyState (InNumber 1766793600000) ''bogus-mode'' []
       = format sampleHost emptyState (InNumber 1766793600000) ''date'' []"
    by blast
  show ?thesis
    using m t v e d by (simp only: simp_thms)
qed

text \<open>
  C8.  For an input whose time value after coercion is \<open>NaN\<close>, \<open>format\<close> raises the
  invalid-date error before it touches a cache: both caches are the same after the call
  as before it, and the call adds no event, that is, no read or write of a cache and no
  constructor call.
\<close>

theorem format_invalid_input:
  assumes "timeValueOf h st input = None"
  shows "fst (format h st input mode opts) = Inl InvalidDate
       \<and> dtfCache (snd (format h st input mode opts)) = dtfCache st
       \<and> rtfCache (snd (format h st input mode opts)) = rtfCache st
       \<and> events (snd (format h st input mode opts)) = events st"
proof -
  obtain d st1 where td: "toDate h st input = (d, st1)" by (cases "toDate h st input")
  with assms have g: "Date_getTime st1 d = None" by (simp add: timeValueOf_def)
  have f: "format h st input mode opts = (Inl InvalidDate, st1)"
    using g by (simp add: format_def td assertValid_def)
  from toDate_keeps [of h st input] td show ?thesis by (simp add: f)
qed

theorem format_invalid_input_witness:
  "timeValueOf sampleHost emptyState (InString ''not-a-date'') = None
   \<and> fst (format sampleHost emptyState (InString ''not-a-date'') ''date'' []) = Inl InvalidDate
   \<and> dtfCache (snd (format sampleHost emptyState (InString ''not-a-date'') ''date'' []))
       = dtfCache emptyState
   \<and> rtfCache (snd (format sampleHost emptyState (InString ''not-a-date'') ''date'' []))
       = rtfCache emptyState
   \<and> events (snd (format sampleHost emptyState (InString ''not-a-date'') ''date'' [])) = []"
proof -
  have v: "timeValueOf sampleHost emptyState (InString ''not-a-date'') = None"
    by (simp add: timeValueOf_def toDate_def new_Date_def Date_getTime_def emptyState_def
        sampleHost_def)
  from format_invalid_input [OF v, of "''date''" "[]"] v
  show ?thesis by (simp add: emptyState_def)
qed


section \<open>Claims about \<open>addDays\<close>\<close>

text \<open>
  C9.  For a valid date and an integer \<open>n\<close>, when \<open>addDays(d, n)\<close> stays within the range
  of Date objects (its result is a valid date), \<open>addDays(addDays(d, n), -n)\<close> returns a
  date with the time value of \<open>d\<close>.
\<close>

theorem addDays_round_trip:
  assumes first: "addDays h st input n = (Inr out, st')"
    and valid: "validTimeValue (timeValueOf h st input)"
    and inrange: "Date_getTime st' out \<noteq> None"
  shows "\<exists>again st''. addDays h st' (InDate out) (- n) = (Inr again, st'')
           \<and> Date_getTime st'' again = timeValueOf h st input"
proof -
  from valid obtain t where t: "timeValueOf h st input = Some t" and tr: "\<bar>t\<bar> \<le> 8640000000000000"
    by (auto simp: validTimeValue_def split: option.splits)
  let ?st1 = "snd (toDate h st input)"
  from first addDays_valid [OF t, of n]
  have out: "out = length (dateHeap ?st1)"
    and st': "st' = ?st1\<lparr>dateHeap := dateHeap ?st1 @ [TimeClip (t + n * msPerDay)]\<rparr>"
    by simp_all
  have g: "Date_getTime st' out = TimeClip (t + n * msPerDay)"
    by (simp add: out st' Date_getTime_def)
  with inrange have c: "TimeClip (t + n * msPerDay) = Some (t + n * msPerDay)"
    by (simp add: TimeClip_def split: if_splits)
  have tv: "timeValueOf h st' (InDate out) = Some (t + n * msPerDay)"
    using g c by (simp add: timeValueOf_def toDate_def)
  have restored: "TimeClip (t + n * msPerDay + (- n) * msPerDay) = Some t"
    using tr by (simp add: TimeClip_def)
  from addDays_valid [OF tv, of "- n"] restored
  have "addDays h st' (InDate out) (- n)
        = (Inr (length (dateHeap st')), st'\<lparr>dateHeap := dateHeap st' @ [Some t]\<rparr>)"
    by (simp add: toDate_def)
  moreover have "Date_getTime (st'\<lparr>dateHeap := dateHeap st' @ [Some t]\<rparr>) (length (dateHeap st'))
      = Some t"
    by (simp add: Date_getTime_def)
  ultimately show ?thesis using t by auto
qed

theorem addDays_round_trip_witness:
  "fst (addDays sampleHost emptyState (InNumber 1766793600000) 7) = Inr 1
   \<and> validTimeValue (timeValueOf sampleHost emptyState (InNumber 1766793600000))
   \<and> Date_getTime (snd (addDays sampleHost emptyState (InNumber 1766793600000) 7)) 1
       = Some 1767398400000
   \<and> (\<exists>again st''.
         addDays sampleHost (snd (addDays sampleHost emptyState (InNumber 1766793600000) 7))
           (InDate 1) (- 7) = (Inr again, st'')
         \<and> Date_getTime st'' again = Some 1766793600000)"
proof -
  let ?first = "addDays sampleHost emptyState (InNumber 1766793600000) 7"
  have r: "fst ?first = Inr 1"
    by code_simp
  then have first: "?first = (Inr 1, snd ?first)" by (simp add: prod_eq_iff)
  have tv: "timeValueOf sampleHost emptyState (InNumber 1766793600000) = Some 1766793600000"
    by (simp add: timeValueOf_def toDate_def new_Date_def TimeClip_def Date_getTime_def
        emptyState_def)
  then have valid: "validTimeValue (timeValueOf sampleHost emptyState (InNumber 1766793600000))"
    by (simp add: validTimeValue_def)
  have g: "Date_getTime (snd ?first) 1 = Some 1767398400000"
    by code_simp
  then have inrange: "Date_getTime (snd ?first) 1 \<noteq> None" by simp
  from addDays_round_trip [OF first valid inrange] r valid g tv
  show ?thesis by simp
qed

text \<open>
  C10.  \<open>addDays\<close> does not mutate its argument: for a valid Date object \<open>d\<close> and an
  integer \<open>n\<close> it returns a Date object allocated by the call, which is none of the
  objects that existed before and so differs from \<open>d\<close>, and every Date object that
  existed before, \<open>d\<close> among them, has the time value it had.
\<close>

theorem addDays_does_not_mutate:
  assumes "Date_getTime st d \<noteq> None"
  shows "\<exists>out st'. addDays h st (InDate d) n = (Inr out, st')
           \<and> out \<noteq> d
           \<and> out = length (dateHeap st)
           \<and> Date_getTime st' d = Date_getTime st d
           \<and> (\<forall>e. e < length (dateHeap st) \<longrightarrow> Date_getTime st' e = Date_getTime st e)"
proof -
  from assms obtain t where t: "Date_getTime st d = Some t" by auto
  then have dl: "d < length (dateHeap st)" by (simp add: Date_getTime_def split: if_splits)
  have tv: "timeValueOf h st (InDate d) = Some t" using t by (simp add: timeValueOf_def toDate_def)
  let ?st' = "st\<lparr>dateHeap := dateHeap st @ [TimeClip (t + n * msPerDay)]\<rparr>"
  from addDays_valid [OF tv, of n]
  have a: "addDays h st (InDate d) n = (Inr (length (dateHeap st)), ?st')"
    by (simp add: toDate_def)
  have "\<forall>e. e < length (dateHeap st) \<longrightarrow> Date_getTime ?st' e = Date_getTime st e"
    by (simp add: Date_getTime_def nth_append)
  with a dl show ?thesis by auto
qed

theorem addDays_does_not_mutate_witness:
  "Date_getTime (emptyState\<lparr>dateHeap := [Some 1766793600000]\<rparr>) 0 \<noteq> None
   \<and> fst (addDays sampleHost (emptyState\<lparr>dateHeap := [Some 1766793600000]\<rparr>) (InDate 0) 7)
       = Inr 1
   \<and> Date_getTime
        (snd (addDays sampleHost (emptyState\<lparr>dateHeap := [Some 1766793600000]\<rparr>) (InDate 0) 7)) 0
       = Some 1766793600000"
proof -
  let ?st = "emptyState\<lparr>dateHeap := [Some 1766793600000]\<rparr>"
  have v: "Date_getTime ?st 0 \<noteq> None" by (simp add: Date_getTime_def)
  have g: "Date_getTime ?st 0 = Some 1766793600000" by (simp add: Date_getTime_def)
  have l: "length (dateHeap ?st) = 1" by simp
  from addDays_does_not_mutate [OF v, of sampleHost 7]
  obtain out st' where a: "addDays sampleHost ?st (InDate 0) 7 = (Inr out, st')"
    and o: "out = length (dateHeap ?st)"
    and k: "Date_getTime st' 0 = Date_getTime ?st 0"
    by blast
  from o l have "out = 1" by (simp only:)
  with a k g v show ?thesis by (simp only: fst_conv snd_conv simp_thms)
qed

end
